theory Spec2Isabelle
  imports Main "HOL-Library.Word" "HOL-Library.AList"
begin

unbundle bit_operations_syntax

section \<open>Python values, errors and slices\<close>

text \<open>
  A shallow embedding of \<^verbatim>\<open>lib/blockchain.py\<close>. Python integers are \<open>int\<close>,
  \<^verbatim>\<open>bytes\<close> are lists of 8-bit words, \<^verbatim>\<open>str\<close> is \<open>string\<close>. Every
  \<^verbatim>\<open>raise\<close> and every failing \<^verbatim>\<open>assert\<close> of the source is an \<open>Inl\<close> value.
\<close>

type_synonym byte = "8 word"
type_synonym bytes = "byte list"

datatype error =
    InvalidHeader               \<comment> \<open>\<^verbatim>\<open>Exception('Invalid header: ...')\<close>\<close>
  | InvalidHeaderLength nat     \<comment> \<open>\<^verbatim>\<open>Exception('Invalid header length: ...')\<close>\<close>
  | PrevHashMismatch            \<comment> \<open>\<^verbatim>\<open>Exception("prev hash mismatch: ...")\<close>\<close>
  | BitsMismatch                \<comment> \<open>\<^verbatim>\<open>Exception("bits mismatch: ...")\<close>\<close>
  | InsufficientPoW             \<comment> \<open>\<^verbatim>\<open>Exception("insufficient proof of work: ...")\<close>\<close>
  | BitsFirstPart               \<comment> \<open>\<^verbatim>\<open>Exception("First part of bits should be in [0x03, 0x1e]")\<close>\<close>
  | BitsSecondPart              \<comment> \<open>\<^verbatim>\<open>Exception("Second part of bits should be in [0x8000, 0x7fffff]")\<close>\<close>
  | ShortRead nat               \<comment> \<open>\<^verbatim>\<open>Exception('Expected to read a full header. ...')\<close>\<close>
  | MissingHeader
  | HeadersDirMissing           \<comment> \<open>\<^verbatim>\<open>FileNotFoundError('Electrum headers_dir does not exist. ...')\<close>\<close>
  | HeadersFileMissing          \<comment> \<open>\<^verbatim>\<open>FileNotFoundError('Cannot find headers file but headers_dir is there. ...')\<close>\<close>
  | RenameSourceMissing         \<comment> \<open>\<^verbatim>\<open>FileNotFoundError\<close> of \<^verbatim>\<open>os.rename\<close>\<close>
  | AssertionError
  | KeyError
  | IndexError
  | TypeError
  | ValueError
  | AttributeError
  | OSError
  | RecursionError

definition bindE :: "error + 'a \<Rightarrow> ('a \<Rightarrow> error + 'b) \<Rightarrow> error + 'b" where
  "bindE m f = (case m of Inl e \<Rightarrow> Inl e | Inr x \<Rightarrow> f x)"

definition py_slice :: "'a list \<Rightarrow> int \<Rightarrow> int \<Rightarrow> 'a list" where
  \<comment> \<open>\<^verbatim>\<open>xs[a:b]\<close>: a negative bound counts from the end, both bounds are clipped.\<close>
  "py_slice xs a b =
     (let n = int (length xs);
          a' = (if a < 0 then max 0 (n + a) else min a n);
          b' = (if b < 0 then max 0 (n + b) else min b n)
      in take (nat (b' - a')) (drop (nat a') xs))"

definition py_from :: "'a list \<Rightarrow> int \<Rightarrow> 'a list" where
  \<comment> \<open>\<^verbatim>\<open>xs[a:]\<close>\<close>
  "py_from xs a = py_slice xs a (int (length xs))"

definition py_index :: "'a list \<Rightarrow> int \<Rightarrow> error + 'a" where
  \<comment> \<open>\<^verbatim>\<open>xs[i]\<close>: \<^verbatim>\<open>xs[-1]\<close> is the last element; \<^verbatim>\<open>IndexError\<close> outside.\<close>
  "py_index xs i =
     (if 0 \<le> i \<and> i < int (length xs) then Inr (xs ! nat i)
      else if i < 0 \<and> - int (length xs) \<le> i then Inr (xs ! nat (int (length xs) + i))
      else Inl IndexError)"

section \<open>Hexadecimal helpers\<close>

definition hex_digit :: "nat \<Rightarrow> char" where
  "hex_digit n = ''0123456789abcdef'' ! n"

definition hex_val :: "char \<Rightarrow> nat option" where
  "hex_val c =
     (let k = (of_char c :: nat) in
      if 48 \<le> k \<and> k \<le> 57 then Some (k - 48)
      else if 97 \<le> k \<and> k \<le> 102 then Some (k - 87)
      else if 65 \<le> k \<and> k \<le> 70 then Some (k - 55)
      else None)"

definition lower_hex :: "char \<Rightarrow> bool" where
  "lower_hex c = (let k = (of_char c :: nat) in (48 \<le> k \<and> k \<le> 57) \<or> (97 \<le> k \<and> k \<le> 102))"

definition bh2u :: "bytes \<Rightarrow> string" where
  \<comment> \<open>Modelled from the spec: \<^verbatim>\<open>util.bh2u\<close> is not under src/; the lowercase
      hexadecimal text of a byte string, two digits per byte.\<close>
  "bh2u bs = concat (map (\<lambda>b. [hex_digit (unat b div 16), hex_digit (unat b mod 16)]) bs)"

definition py_space :: "char \<Rightarrow> bool" where
  \<comment> \<open>ASCII whitespace: space, \<^verbatim>\<open>\t\<close>, \<^verbatim>\<open>\n\<close>, \<^verbatim>\<open>\v\<close>, \<^verbatim>\<open>\f\<close> and \<^verbatim>\<open>\r\<close>\<close>
  "py_space c = (let k = (of_char c :: nat) in k = 32 \<or> (9 \<le> k \<and> k \<le> 13))"

fun bfh :: "string \<Rightarrow> error + bytes" where
  \<comment> \<open>Modelled from the spec: \<^verbatim>\<open>util.bfh\<close> is not under src/; it is
      \<^verbatim>\<open>bytes.fromhex\<close>: the bytes written by a hexadecimal text, where ASCII whitespace
      before a pair of digits and at the end is skipped, and a \<^verbatim>\<open>ValueError\<close> for
      anything else.\<close>
  "bfh [] = Inr []"
| "bfh [c] = (if py_space c then Inr [] else Inl ValueError)"
| "bfh (c # d # cs) =
     (if py_space c then bfh (d # cs)
      else (case (hex_val c, hex_val d) of
              (Some a, Some b) \<Rightarrow> bindE (bfh cs) (\<lambda>bs. Inr (of_nat (16 * a + b) # bs))
            | _ \<Rightarrow> Inl ValueError))"

definition rev_hex :: "string \<Rightarrow> error + string" where
  \<comment> \<open>Modelled from the spec: \<^verbatim>\<open>bitcoin.rev_hex\<close> is not under src/; the
      hexadecimal text of the reversed bytes.\<close>
  "rev_hex s = bindE (bfh s) (\<lambda>bs. Inr (bh2u (rev bs)))"

definition hash_encode :: "bytes \<Rightarrow> string" where
  \<comment> \<open>Modelled from the spec: \<^verbatim>\<open>bitcoin.hash_encode\<close> is not under src/; hashes
      are big-endian hexadecimal in memory, reversed bytes on the wire.\<close>
  "hash_encode x = bh2u (rev x)"

fun hex_nat :: "nat \<Rightarrow> string" where
  \<comment> \<open>the digits of \<^verbatim>\<open>'%x' % n\<close>\<close>
  "hex_nat n = (if n < 16 then [hex_digit n] else hex_nat (n div 16) @ [hex_digit (n mod 16)])"

declare hex_nat.simps [simp del]

definition zfill :: "nat \<Rightarrow> string \<Rightarrow> string" where
  "zfill w s = replicate (w - length s) CHR ''0'' @ s"

definition int_to_hex :: "int \<Rightarrow> nat \<Rightarrow> error + string" where
  \<comment> \<open>Modelled from the spec: \<^verbatim>\<open>bitcoin.int_to_hex\<close> is not under src/; the
      little-endian encoding of \<open>i\<close> on \<open>len\<close> bytes, as hexadecimal text. A value
      that does not fit \<open>len\<close> bytes has no such encoding and is an error here.\<close>
  "int_to_hex i len =
     (if 0 \<le> i \<and> i < 256 ^ len then rev_hex (zfill (2 * len) (hex_nat (nat i)))
      else Inl ValueError)"

fun int16_acc :: "nat \<Rightarrow> string \<Rightarrow> error + nat" where
  "int16_acc acc [] = Inr acc"
| "int16_acc acc (c # cs) =
     (case hex_val c of None \<Rightarrow> Inl ValueError | Some d \<Rightarrow> int16_acc (16 * acc + d) cs)"

definition int16 :: "string \<Rightarrow> error + int" where
  \<comment> \<open>\<^verbatim>\<open>int('0x' + s, 16)\<close> for a text \<open>s\<close> of hexadecimal digits\<close>
  "int16 s = (if s = [] then Inl ValueError else bindE (int16_acc 0 s) (\<lambda>n. Inr (int n)))"

definition fmt064x :: "int \<Rightarrow> string" where
  \<comment> \<open>\<^verbatim>\<open>"%064x" % target\<close>: the sign counts in the width of 64.\<close>
  "fmt064x t =
     (if t < 0 then CHR ''-'' # zfill 63 (hex_nat (nat (- t))) else zfill 64 (hex_nat (nat t)))"

section \<open>Header codec\<close>

record header =
  version :: int
  prev_block_hash :: "string option"
  merkle_root :: string
  timestamp :: int
  bits :: int
  nonce :: int
  block_height :: int

definition serialize_header :: "header \<Rightarrow> error + string" where
  "serialize_header res =
     bindE (int_to_hex (version res) 4) (\<lambda>v.
     bindE (case prev_block_hash res of None \<Rightarrow> Inl TypeError | Some p \<Rightarrow> rev_hex p) (\<lambda>p.
     bindE (rev_hex (merkle_root res)) (\<lambda>m.
     bindE (int_to_hex (timestamp res) 4) (\<lambda>t.
     bindE (int_to_hex (bits res) 4) (\<lambda>b.
     bindE (int_to_hex (nonce res) 4) (\<lambda>n.
       Inr (v @ p @ m @ t @ b @ n)))))))"

definition hex_to_int :: "bytes \<Rightarrow> error + int" where
  \<comment> \<open>\<^verbatim>\<open>lambda s: int('0x' + bh2u(s[::-1]), 16)\<close>\<close>
  "hex_to_int s = int16 (bh2u (rev s))"

definition deserialize_header :: "bytes \<Rightarrow> int \<Rightarrow> error + header" where
  "deserialize_header s height =
     (if s = [] then Inl InvalidHeader
      else if length s \<noteq> 80 then Inl (InvalidHeaderLength (length s))
      else
        bindE (hex_to_int (py_slice s 0 4)) (\<lambda>v.
        bindE (hex_to_int (py_slice s 68 72)) (\<lambda>t.
        bindE (hex_to_int (py_slice s 72 76)) (\<lambda>b.
        bindE (hex_to_int (py_slice s 76 80)) (\<lambda>n.
          Inr \<lparr> version = v,
                prev_block_hash = Some (hash_encode (py_slice s 4 36)),
                merkle_root = hash_encode (py_slice s 36 68),
                timestamp = t, bits = b, nonce = n,
                block_height = height \<rparr>)))))"

definition MAX_TARGET :: int where
  "MAX_TARGET = 0x00000FFFFF000000000000000000000000000000000000000000000000000000"

definition bits_to_target :: "int \<Rightarrow> error + int" where
  "bits_to_target bts =
     (let bitsN = (drop_bit 24 bts) AND 0xff in
      if \<not> (bitsN \<ge> 0x03 \<and> bitsN \<le> 0x1e) then Inl BitsFirstPart
      else
        let bitsBase = bts AND 0xffffff in
        if \<not> (bitsBase \<ge> 0x8000 \<and> bitsBase \<le> 0x7fffff) then Inl BitsSecondPart
        else Inr (push_bit (nat (8 * (bitsN - 3))) bitsBase))"

function strip00 :: "string \<Rightarrow> string" where
  \<comment> \<open>\<^verbatim>\<open>while c[:2] == '00' and len(c) > 6: c = c[2:]\<close>\<close>
  "strip00 c = (if py_slice c 0 2 = ''00'' \<and> length c > 6 then strip00 (py_from c 2) else c)"
  by pat_completeness auto
termination
  by (relation "measure length") (auto simp: py_from_def py_slice_def Let_def)

declare strip00.simps [simp del]

definition target_to_bits :: "int \<Rightarrow> error + int" where
  "target_to_bits target =
     (let c = strip00 (py_from (fmt064x target) 2) in
      bindE (int16 (py_slice c 0 6)) (\<lambda>base.
        let bitsN = int (length c) div 2 in
        if base \<ge> 0x800000 then Inr (push_bit 24 (bitsN + 1) OR drop_bit 8 base)
        else Inr (push_bit 24 bitsN OR base)))"

text \<open>Fixed-width hexadecimal digits, used to reason about \<^const>\<open>zfill\<close> and \<^const>\<open>hex_nat\<close>.\<close>

fun hexw :: "nat \<Rightarrow> nat \<Rightarrow> string" where
  "hexw 0 n = []"
| "hexw (Suc w) n = hexw w (n div 16) @ [hex_digit (n mod 16)]"


section \<open>Network constants and hash primitives\<close>

text \<open>
  \<^verbatim>\<open>constants.net\<close>, the scrypt and blake2s hashes and the interpreter's recursion limit
  are not part of \<^verbatim>\<open>blockchain.py\<close>: they are the fields of an environment that every
  function below takes. The floating-point expression at the end of \<^verbatim>\<open>get_target\<close> is a
  field too (see \<open>get_target\<close>).
\<close>

record env =
  TESTNET :: bool
  GENESIS :: string
  CHECKPOINTS :: "(string \<times> int \<times> int) list"
  getPoWHash :: "bytes \<Rightarrow> bytes"
  cblake :: "bytes \<Rightarrow> bytes"
  recursion_limit :: nat
  float_next_target :: "int \<Rightarrow> int list \<Rightarrow> error + int"

definition zeros64 :: string where
  "zeros64 = replicate 64 CHR ''0''"

definition hash_header :: "env \<Rightarrow> header option \<Rightarrow> error + string" where
  \<comment> \<open>The source stores the default \<^verbatim>\<open>'00'*32\<close> into the caller's dictionary; no function
      of this file reads the header again after hashing it.\<close>
  "hash_header E hdr =
     (case hdr of
        None \<Rightarrow> Inr zeros64
      | Some header \<Rightarrow>
          let header' = (if prev_block_hash header = None
                         then header\<lparr>prev_block_hash := Some (concat (replicate 32 ''00''))\<rparr>
                         else header)
          in bindE (bindE (serialize_header header') bfh)
               (\<lambda>raw. Inr (hash_encode (getPoWHash E raw))))"

definition pow_hash_header :: "env \<Rightarrow> header \<Rightarrow> error + string" where
  "pow_hash_header E header =
     (if version header AND push_bit 11 15 = push_bit 11 4
      then bindE (bindE (serialize_header header) bfh) (\<lambda>raw. Inr (hash_encode (cblake E raw)))
      else bindE (bindE (serialize_header header) bfh)
             (\<lambda>raw. Inr (hash_encode (getPoWHash E raw))))"

section \<open>Chains, the registry and the headers directory\<close>

datatype path =
    MainPath                \<comment> \<open>\<^verbatim>\<open>blockchain_headers\<close>\<close>
  | ForkPath int int        \<comment> \<open>\<^verbatim>\<open>forks/fork_%d_%d % (parent_id, checkpoint)\<close>\<close>

record blockchain =
  checkpoint :: int
  parent_id :: "int option"
  chain_size :: int                    \<comment> \<open>the attribute \<^verbatim>\<open>_size\<close>, which \<^verbatim>\<open>size()\<close> returns\<close>
  old_path :: "path option"

text \<open>
  \<^verbatim>\<open>Blockchain\<close> objects are mutable and shared between the registry and the callers, so
  they live in a store addressed by references. \<open>blockchains\<close> is the module-level
  dictionary, in insertion order. \<open>files\<close> is the content of the headers directory.
\<close>

type_synonym ref = nat

record world =
  objs :: "ref \<Rightarrow> blockchain"
  blockchains :: "(int \<times> ref) list"
  files :: "path \<Rightarrow> bytes option"
  headers_dir :: bool

definition parent :: "world \<Rightarrow> ref \<Rightarrow> error + ref" where
  \<comment> \<open>\<^verbatim>\<open>blockchains[self.parent_id]\<close>\<close>
  "parent w self =
     (case parent_id (objs w self) of
        None \<Rightarrow> Inl KeyError
      | Some k \<Rightarrow> (case map_of (blockchains w) k of None \<Rightarrow> Inl KeyError | Some r \<Rightarrow> Inr r))"

definition height :: "world \<Rightarrow> ref \<Rightarrow> int" where
  "height w self = checkpoint (objs w self) + chain_size (objs w self) - 1"

definition path_of :: "blockchain \<Rightarrow> path" where
  "path_of b = (case parent_id b of None \<Rightarrow> MainPath | Some k \<Rightarrow> ForkPath k (checkpoint b))"

definition path :: "world \<Rightarrow> ref \<Rightarrow> path" where
  "path w self = path_of (objs w self)"

definition update_size :: "world \<Rightarrow> ref \<Rightarrow> world" where
  "update_size w self =
     w\<lparr>objs := (objs w)(self := (objs w self)
          \<lparr>chain_size := (case files w (path w self) of
                       None \<Rightarrow> 0 | Some f \<Rightarrow> int (length f) div 80)\<rparr>)\<rparr>"

definition assert_headers_file_available :: "world \<Rightarrow> path \<Rightarrow> error + unit" where
  "assert_headers_file_available w p =
     (if files w p \<noteq> None then Inr ()
      else if \<not> headers_dir w then Inl HeadersDirMissing
      else Inl HeadersFileMissing)"

definition f_truncate :: "bytes \<Rightarrow> nat \<Rightarrow> bytes" where
  \<comment> \<open>\<^verbatim>\<open>f.seek(n); f.truncate()\<close>: a file shorter than \<open>n\<close> is filled with zeros.\<close>
  "f_truncate f n = take n f @ replicate (n - length f) 0"

definition f_write :: "bytes \<Rightarrow> nat \<Rightarrow> bytes \<Rightarrow> bytes" where
  \<comment> \<open>\<^verbatim>\<open>f.seek(n); f.write(data)\<close>: writing nothing leaves the file as it is.\<close>
  "f_write f n data =
     (if data = [] then f
      else take n f @ replicate (n - length f) 0 @ data @ drop (n + length data) f)"

definition f_read :: "bytes \<Rightarrow> nat \<Rightarrow> int \<Rightarrow> error + bytes" where
  \<comment> \<open>\<^verbatim>\<open>f.seek(n); f.read(k)\<close>: \<open>k = -1\<close> reads to the end of the file, a smaller \<open>k\<close>
      is a \<^verbatim>\<open>ValueError\<close>.\<close>
  "f_read f n k =
     (if k < - 1 then Inl ValueError
      else if k = - 1 then Inr (drop n f)
      else Inr (take (nat k) (drop n f)))"

definition write_data :: "world \<Rightarrow> ref \<Rightarrow> bytes \<Rightarrow> int \<Rightarrow> bool \<Rightarrow> error + world" where
  \<comment> \<open>An error leaves the world as it was: both raise before the file is touched.\<close>
  "write_data w self data offset trunc =
     (let filename = path w self in
      case assert_headers_file_available w filename of
        Inl e \<Rightarrow> Inl e
      | Inr _ \<Rightarrow>
         (case files w filename of
            None \<Rightarrow> Inl HeadersFileMissing
          | Some f \<Rightarrow>
              if offset < 0 then Inl OSError
              else
                let f1 = (if trunc \<and> offset \<noteq> chain_size (objs w self) * 80
                          then f_truncate f (nat offset) else f);
                    f2 = f_write f1 (nat offset) data
                in Inr (update_size (w\<lparr>files := (files w)(filename \<mapsto> f2)\<rparr>) self)))"

fun read_header :: "nat \<Rightarrow> world \<Rightarrow> ref \<Rightarrow> int \<Rightarrow> error + header option" where
  \<comment> \<open>The first argument bounds the depth of \<^verbatim>\<open>self.parent().read_header(height)\<close>:
      Python raises \<^verbatim>\<open>RecursionError\<close> at its recursion limit.\<close>
  "read_header 0 w self h = Inl RecursionError"
| "read_header (Suc d) w self h =
     (let b = objs w self in
      if parent_id b = Some (checkpoint b) then Inl AssertionError
      else if h < 0 then Inr None
      else if h < checkpoint b then
        (case parent w self of Inl e \<Rightarrow> Inl e | Inr p \<Rightarrow> read_header d w p h)
      else if h > height w self then Inr None
      else
        let delta = h - checkpoint b; name = path w self in
        case assert_headers_file_available w name of
          Inl e \<Rightarrow> Inl e
        | Inr _ \<Rightarrow>
           (case files w name of
              None \<Rightarrow> Inl HeadersFileMissing
            | Some f \<Rightarrow>
                bindE (f_read f (nat (delta * 80)) 80) (\<lambda>raw.
                  if length raw < 80 then Inl (ShortRead (length raw))
                  else if raw = replicate 80 0 then Inr None
                  else bindE (deserialize_header raw h) (\<lambda>blk. Inr (Some blk)))))"

definition get_hash :: "env \<Rightarrow> world \<Rightarrow> ref \<Rightarrow> int \<Rightarrow> error + string" where
  "get_hash E w self h =
     (if h = - 1 then Inr ''0000000000000000000000000000000000000000000000000000000000000000''
      else if h = 0 then Inr (GENESIS E)
      else if h < int (length (CHECKPOINTS E)) * 2016 then
        if (h + 1) mod 2016 \<noteq> 0 then Inl AssertionError
        else bindE (py_index (CHECKPOINTS E) (h div 2016)) (\<lambda>(hsh, t, ts). Inr hsh)
      else bindE (read_header (recursion_limit E) w self h) (hash_header E))"



definition switcher :: "(int \<times> int) list" where
  "switcher =
     [(push_bit 11 1, 0),     \<comment> \<open>scrypt\<close>
      (push_bit 11 2, 4),     \<comment> \<open>groestl\<close>
      (push_bit 11 10, 2),    \<comment> \<open>lyra\<close>
      (push_bit 11 3, 1),     \<comment> \<open>x17\<close>
      (push_bit 11 4, 3),     \<comment> \<open>blake\<close>
      (push_bit 11 11, 5)]    \<comment> \<open>x16s\<close>"

definition get_algo :: "header \<Rightarrow> int" where
  \<comment> \<open>\<^verbatim>\<open>switcher.get(header['version'] & (15 << 11), 0)\<close>\<close>
  "get_algo header =
     (case map_of switcher (version header AND push_bit 11 15) of None \<Rightarrow> 0 | Some a \<Rightarrow> a)"

definition get_algo_opt :: "header option \<Rightarrow> error + int" where
  \<comment> \<open>\<^verbatim>\<open>get_algo\<close> on what \<^verbatim>\<open>read_header\<close> returned: \<^verbatim>\<open>None['version']\<close> is a
      \<^verbatim>\<open>TypeError\<close>.\<close>
  "get_algo_opt r = (case r of None \<Rightarrow> Inl TypeError | Some blk \<Rightarrow> Inr (get_algo blk))"



definition block_at :: "env \<Rightarrow> world \<Rightarrow> ref \<Rightarrow> bytes \<Rightarrow> int \<Rightarrow> int \<Rightarrow> error + header option"
  where
  \<comment> \<open>The header that the walk of \<^verbatim>\<open>get_target\<close> looks at for \<open>c\<close>: from the chunk when
      \<open>c\<close> is in it, from the store otherwise.\<close>
  "block_at E w self data index c =
     (if c \<ge> index * 2016 then
        let tmpix = c - index * 2016;
            tmpraw = py_slice data (tmpix * 80) ((tmpix + 1) * 80)
        in bindE (deserialize_header tmpraw c) (\<lambda>blk. Inr (Some blk))
      else read_header (recursion_limit E) w self c)"

function walk ::
  "env \<Rightarrow> world \<Rightarrow> ref \<Rightarrow> bytes \<Rightarrow> int \<Rightarrow> int \<Rightarrow> int \<Rightarrow> header option list
     \<Rightarrow> error + (int \<times> header option list)" where
  \<comment> \<open>\<^verbatim>\<open>while c > 100 and len(samealgoblocks) <= N\<close>, with \<open>N = 60\<close>; the result is the final
      \<open>c\<close> and \<open>samealgoblocks\<close>.\<close>
  "walk E w self data index algo c samealgoblocks =
     (if c > 100 \<and> int (length samealgoblocks) \<le> 60 then
        (case block_at E w self data index c of
           Inl e \<Rightarrow> Inl e
         | Inr block \<Rightarrow>
            (case get_algo_opt block of
               Inl e \<Rightarrow> Inl e
             | Inr a \<Rightarrow>
                 walk E w self data index algo (c - 1)
                   (if a = algo then samealgoblocks @ [block] else samealgoblocks)))
      else Inr (c, samealgoblocks))"
  by pat_completeness auto
termination
  by (relation "measure (\<lambda>(E, w, self, data, index, algo, c, bs). nat (c - 100))") auto

declare walk.simps [simp del]





section \<open>Header verification\<close>

definition verify_header :: "env \<Rightarrow> header \<Rightarrow> string \<Rightarrow> int \<Rightarrow> error + unit" where
  "verify_header E header prev_hash target =
     bindE (pow_hash_header E header) (\<lambda>powhash.
       if Some prev_hash \<noteq> prev_block_hash header then Inl PrevHashMismatch
       else if TESTNET E then Inr ()
       else
         bindE (target_to_bits target) (\<lambda>bts.
           if bts \<noteq> bits header then Inl BitsMismatch
           else
             let algo_version = version header AND push_bit 11 15 in
             if algo_version = push_bit 11 1 \<or> algo_version = push_bit 11 4 then
               bindE (int16 powhash) (\<lambda>pow.
                 if pow > target then Inl InsufficientPoW else Inr ())
             else Inr ()))"



section \<open>Writing headers and swapping with the parent\<close>

fun store_old_paths :: "world \<Rightarrow> ref list \<Rightarrow> world" where
  \<comment> \<open>\<^verbatim>\<open>for b in blockchains.values(): b.old_path = b.path()\<close>\<close>
  "store_old_paths w [] = w"
| "store_old_paths w (r # rs) =
     store_old_paths (w\<lparr>objs := (objs w)(r := (objs w r)\<lparr>old_path := Some (path w r)\<rparr>)\<rparr>) rs"

fun move_files :: "world \<Rightarrow> ref \<Rightarrow> ref \<Rightarrow> ref list \<Rightarrow> (error + unit) \<times> world" where
  \<comment> \<open>\<^verbatim>\<open>for b in blockchains.values()\<close> with \<^verbatim>\<open>os.rename\<close>, which raises when the source
      file does not exist.\<close>
  "move_files w self pr [] = (Inr (), w)"
| "move_files w self pr (r # rs) =
     (if r = self \<or> r = pr then move_files w self pr rs
      else if old_path (objs w r) \<noteq> Some (path w r) then
        (case old_path (objs w r) of
           None \<Rightarrow> (Inl AttributeError, w)
         | Some old \<Rightarrow>
            (case files w old of
               None \<Rightarrow> (Inl RenameSourceMissing, w)
             | Some f \<Rightarrow>
                 move_files (w\<lparr>files := (files w)(old := None, path w r \<mapsto> f)\<rparr>) self pr rs))
      else move_files w self pr rs)"

definition swap_parameters :: "world \<Rightarrow> ref \<Rightarrow> ref \<Rightarrow> int option \<Rightarrow> int \<Rightarrow> int \<Rightarrow> world" where
  \<comment> \<open>The six assignments under \<^verbatim>\<open># swap parameters\<close>, one after the other on the store.\<close>
  "swap_parameters w self pr pid cp parent_branch_size =
     (let s1 = (objs w)(self := (objs w self)\<lparr>parent_id := parent_id (objs w pr)\<rparr>);
          s2 = s1(pr := (s1 pr)\<lparr>parent_id := pid\<rparr>);
          s3 = s2(self := (s2 self)\<lparr>checkpoint := checkpoint (s2 pr)\<rparr>);
          s4 = s3(pr := (s3 pr)\<lparr>checkpoint := cp\<rparr>);
          s5 = s4(self := (s4 self)\<lparr>chain_size := chain_size (s4 pr)\<rparr>);
          s6 = s5(pr := (s5 pr)\<lparr>chain_size := parent_branch_size\<rparr>)
      in w\<lparr>objs := s6\<rparr>)"

definition swap_rest ::
  "world \<Rightarrow> ref \<Rightarrow> ref \<Rightarrow> int \<Rightarrow> int \<Rightarrow> int \<Rightarrow> (error + unit) \<times> world" where
  \<comment> \<open>\<^verbatim>\<open>swap_with_parent\<close> from \<^verbatim>\<open># store file path\<close> on\<close>
  "swap_rest w self pr pid cp parent_branch_size =
     (let w3 = store_old_paths w (map snd (blockchains w));
          w4 = swap_parameters w3 self pr (Some pid) cp parent_branch_size
      in case move_files w4 self pr (map snd (blockchains w4)) of
           (Inl e, w5) \<Rightarrow> (Inl e, w5)
         | (Inr _, w5) \<Rightarrow>
             let r1 = AList.update (checkpoint (objs w5 self)) self (blockchains w5);
                 r2 = AList.update (checkpoint (objs w5 pr)) pr r1
             in (Inr (), w5\<lparr>blockchains := r2\<rparr>))"

definition read_all :: "world \<Rightarrow> path \<Rightarrow> error + bytes" where
  \<comment> \<open>\<^verbatim>\<open>assert_headers_file_available(p)\<close>, then the content of the file\<close>
  "read_all w p =
     bindE (assert_headers_file_available w p) (\<lambda>_.
       case files w p of None \<Rightarrow> Inl HeadersFileMissing | Some f \<Rightarrow> Inr f)"

definition swap_with_parent :: "world \<Rightarrow> ref \<Rightarrow> (error + unit) \<times> world" where
  "swap_with_parent w self =
     (case parent_id (objs w self) of
        None \<Rightarrow> (Inr (), w)
      | Some pid \<Rightarrow>
         (case parent w self of
            Inl e \<Rightarrow> (Inl e, w)
          | Inr pr \<Rightarrow>
              let parent_branch_size = height w pr - checkpoint (objs w self) + 1 in
              if parent_branch_size \<ge> chain_size (objs w self) then (Inr (), w)
              else
                let cp = checkpoint (objs w self);
                    offs = (cp - checkpoint (objs w pr)) * 80
                in
                case bindE (read_all w (path w self)) (\<lambda>my_data.
                     bindE (read_all w (path w pr)) (\<lambda>pf.
                       if offs < 0 then Inl OSError
                       else bindE (f_read pf (nat offs) (parent_branch_size * 80))
                              (\<lambda>parent_data. Inr (my_data, parent_data)))) of
                  Inl e \<Rightarrow> (Inl e, w)
                | Inr (my_data, parent_data) \<Rightarrow>
                   (case write_data w self parent_data 0 True of
                      Inl e \<Rightarrow> (Inl e, w)
                    | Inr w1 \<Rightarrow>
                       (case write_data w1 pr my_data offs True of
                          Inl e \<Rightarrow> (Inl e, w1)
                        | Inr w2 \<Rightarrow> swap_rest w2 self pr pid cp parent_branch_size))))"


definition save_header :: "world \<Rightarrow> ref \<Rightarrow> header \<Rightarrow> (error + unit) \<times> world" where
  "save_header w self header =
     (let delta = block_height header - checkpoint (objs w self) in
      case bindE (serialize_header header) bfh of
        Inl e \<Rightarrow> (Inl e, w)
      | Inr data \<Rightarrow>
          if delta \<noteq> chain_size (objs w self) then (Inl AssertionError, w)
          else if length data \<noteq> 80 then (Inl AssertionError, w)
          else (case write_data w self data (delta * 80) True of
                  Inl e \<Rightarrow> (Inl e, w)
                | Inr w1 \<Rightarrow> swap_with_parent w1 self))"


definition check_header :: "env \<Rightarrow> world \<Rightarrow> ref \<Rightarrow> header \<Rightarrow> error + bool" where
  "check_header E w self header =
     bindE (hash_header E (Some header)) (\<lambda>header_hash.
     bindE (get_hash E w self (block_height header)) (\<lambda>hsh. Inr (header_hash = hsh)))"

definition can_connect :: "env \<Rightarrow> world \<Rightarrow> ref \<Rightarrow> header option \<Rightarrow> bool \<Rightarrow> error + bool" where
  "can_connect E w self hdr check_height =
     (case hdr of
        None \<Rightarrow> Inr False
      | Some header \<Rightarrow>
          let hgt = block_height header in
          if check_height \<and> height w self \<noteq> hgt - 1 then Inr False
          else if hgt = 0 then
            bindE (hash_header E (Some header)) (\<lambda>hsh. Inr (hsh = GENESIS E))
          else
            (case get_hash E w self (hgt - 1) of
               Inl e \<Rightarrow> Inr False
             | Inr prev_hash \<Rightarrow>
                 if Some prev_hash \<noteq> prev_block_hash header then Inr False else Inr True))"


section \<open>Example environments and stores\<close>

definition zero_header :: "int \<Rightarrow> header" where
  \<comment> \<open>what \<open>deserialize_header\<close> reads from 80 zero bytes\<close>
  "zero_header h =
     \<lparr>version = 0, prev_block_hash = Some zeros64, merkle_root = zeros64,
      timestamp = 0, bits = 0, nonce = 0, block_height = h\<rparr>"

definition testnet :: env where
  \<comment> \<open>A test network without checkpoints whose two hashes return 32 zero bytes; the last
      field computes in exact arithmetic.\<close>
  "testnet =
     \<lparr>TESTNET = True,
      GENESIS = ''00000000000000000000000000000000000000000000000000000000000000a1'',
      CHECKPOINTS = [],
      getPoWHash = (\<lambda>raw. replicate 32 0),
      cblake = (\<lambda>raw. replicate 32 0),
      recursion_limit = 1000,
      float_next_target = (\<lambda>t targets. Inr (t * sum_list targets div (411750 * 60)))\<rparr>"

definition max_hash :: bytes where
  \<comment> \<open>the 32 bytes that \<open>hash_encode\<close> writes as \<open>MAX_TARGET\<close>\<close>
  "max_hash = replicate 27 0 @ [0xff, 0xff, 0x0f, 0, 0]"

definition mainnet :: env where
  \<comment> \<open>as \<open>testnet\<close>, on the main network, with hashes that are \<open>MAX_TARGET\<close>\<close>
  "mainnet = testnet\<lparr>TESTNET := False,
                       getPoWHash := (\<lambda>raw. max_hash), cblake := (\<lambda>raw. max_hash)\<rparr>"

definition main_chain :: "int \<Rightarrow> blockchain" where
  "main_chain n = \<lparr>checkpoint = 0, parent_id = None, chain_size = n, old_path = None\<rparr>"

definition fresh_world :: world where
  \<comment> \<open>one main chain, at reference 0, with an empty headers file\<close>
  "fresh_world =
     \<lparr>objs = (\<lambda>r. main_chain 0),
      blockchains = [(0, 0)],
      files = [MainPath \<mapsto> []],
      headers_dir = True\<rparr>"

definition pow_header :: "int \<Rightarrow> header" where
  \<comment> \<open>a scrypt header with the given bits\<close>
  "pow_header b =
     \<lparr>version = 2048, prev_block_hash = Some zeros64, merkle_root = zeros64,
      timestamp = 0, bits = b, nonce = 0, block_height = 0\<rparr>"

definition fork_chain :: "int \<Rightarrow> int \<Rightarrow> blockchain" where
  \<comment> \<open>a fork of the chain registered as 0, from the given checkpoint\<close>
  "fork_chain cp n = \<lparr>checkpoint = cp, parent_id = Some 0, chain_size = n, old_path = None\<rparr>"

definition forked_world :: "int \<Rightarrow> world" where
  \<comment> \<open>A main chain of \<open>n\<close> headers at reference 0, and at reference 1 a fork of two
      headers from height 5. Every header is 80 bytes \<open>0x01\<close>.\<close>
  "forked_world n =
     \<lparr>objs = (\<lambda>r. if r = 1 then fork_chain 5 2 else main_chain n),
      blockchains = [(0, 0), (5, 1)],
      files = [MainPath \<mapsto> replicate (nat n * 80) 1, ForkPath 0 5 \<mapsto> replicate 160 1],
      headers_dir = True\<rparr>"



section \<open>Lemmas on the hexadecimal helpers\<close>

lemma hex_digit_table:
  "list_all (\<lambda>n. hex_val (hex_digit n) = Some n \<and> lower_hex (hex_digit n)
      \<and> (of_char (hex_digit n) :: nat) = (if n < 10 then 48 + n else 87 + n)) [0..<16]"
  by code_simp

lemma hex_digit_facts:
  assumes "n < 16"
  shows "hex_val (hex_digit n) = Some n" and "lower_hex (hex_digit n)"
    and "(of_char (hex_digit n) :: nat) = (if n < 10 then 48 + n else 87 + n)"
proof -
  have "n \<in> set [0..<16]" using assms by simp
  then have "hex_val (hex_digit n) = Some n \<and> lower_hex (hex_digit n)
      \<and> (of_char (hex_digit n) :: nat) = (if n < 10 then 48 + n else 87 + n)"
    using hex_digit_table unfolding list_all_iff by blast
  then show "hex_val (hex_digit n) = Some n" and "lower_hex (hex_digit n)"
    and "(of_char (hex_digit n) :: nat) = (if n < 10 then 48 + n else 87 + n)"
    by simp_all
qed

lemma hex_val_digit: "n < 16 \<Longrightarrow> hex_val (hex_digit n) = Some n"
  by (rule hex_digit_facts)

lemma lower_hex_digit: "n < 16 \<Longrightarrow> lower_hex (hex_digit n)"
  by (rule hex_digit_facts)

lemma hex_val_lt: "hex_val c = Some n \<Longrightarrow> n < 16"
  by (auto simp: hex_val_def Let_def split: if_splits)
lemma hex_digit_val: 
  assumes l: "lower_hex c" and v: "hex_val c = Some n" shows "hex_digit n = c"
proof -
  have n: "n < 16" using v by (rule hex_val_lt)
  have k: "(of_char c :: nat) = (if n < 10 then 48 + n else 87 + n)"
    using l v by (auto simp: hex_val_def lower_hex_def Let_def split: if_splits)
  have "(of_char (hex_digit n) :: nat) = (if n < 10 then 48 + n else 87 + n)"
    using n by (rule hex_digit_facts)
  with k have "(of_char (hex_digit n) :: nat) = of_char c" by simp
  then show ?thesis by (metis char_of_char) 
qed
lemma lower_hex_val: "lower_hex c \<Longrightarrow> \<exists>n. hex_val c = Some n"
  by (auto simp: hex_val_def lower_hex_def Let_def)

lemma py_slice_nat: "py_slice xs (int a) (int b) = take (b - a) (drop a xs)"
proof (cases "a \<le> length xs")
  case True
  then show ?thesis
    by (auto simp: py_slice_def Let_def min_def nat_diff_distrib' intro!: take_all)
      (simp add: drop_take[symmetric] min_def)?
next
  case False
  then show ?thesis by (simp add: py_slice_def Let_def min_def)
qed

lemma py_from_nat: "py_from xs (int a) = drop a xs"
  unfolding py_from_def py_slice_nat by simp

lemma bindE_simps [simp]: "bindE (Inl e) f = Inl e" "bindE (Inr x) f = f x"
  by (simp_all add: bindE_def)

lemma bh2u_simps [simp]:
  "bh2u [] = []"
  "bh2u (b # bs) = hex_digit (unat b div 16) # hex_digit (unat b mod 16) # bh2u bs"
  "bh2u (xs @ ys) = bh2u xs @ bh2u ys"
  by (simp_all add: bh2u_def)

lemma length_bh2u [simp]: "length (bh2u bs) = 2 * length bs"
  by (induction bs) simp_all

lemma byte_nibbles: "unat (b :: byte) div 16 < 16" "unat b mod 16 < 16"
proof -
  have "unat b < 256" using unsigned_less[of b, where 'a=nat] by simp
  then show "unat b div 16 < 16" by simp
  show "unat b mod 16 < 16" by simp
qed

lemma lower_bh2u: "list_all lower_hex (bh2u bs)"
  by (induction bs) (simp_all add: lower_hex_digit byte_nibbles)

lemma lower_not_space: "lower_hex c \<Longrightarrow> \<not> py_space c"
  by (auto simp: lower_hex_def py_space_def Let_def)

lemma hex_val_not_space: "hex_val c = Some a \<Longrightarrow> \<not> py_space c"
  by (auto simp: hex_val_def py_space_def Let_def split: if_splits)

lemma bfh_pair:
  "hex_val c = Some a \<Longrightarrow> hex_val d = Some b \<Longrightarrow>
   bfh (c # d # cs) = bindE (bfh cs) (\<lambda>bs. Inr (of_nat (16 * a + b) # bs))"
  by (simp add: hex_val_not_space)

lemma bfh_bh2u: "bfh (bh2u bs) = Inr bs"
proof (induction bs)
  case Nil
  show ?case by simp
next
  case (Cons b bs)
  have "(of_nat (16 * (unat b div 16) + unat b mod 16) :: byte) = b"
    by simp
  with Cons show ?case
    by (simp add: hex_val_digit byte_nibbles bfh_pair del: bfh.simps)
qed

lemma bh2u_bfh: "list_all lower_hex s \<Longrightarrow> bfh s = Inr bs \<Longrightarrow> bh2u bs = s"
proof (induction s arbitrary: bs rule: induct_list012)
  case 1
  then show ?case by simp
next
  case (2 c)
  then show ?case by (simp add: lower_not_space)
next
  case (3 c d cs)
  have ns: "\<not> py_space c" using "3.prems"(1) by (simp add: lower_not_space)
  from "3.prems" ns obtain a b bs' where
    a: "hex_val c = Some a" and b: "hex_val d = Some b" and r: "bfh cs = Inr bs'"
    and bs0: "bs = of_nat (16 * a + b) # bs'"
    by (auto simp: bindE_def split: option.splits sum.splits)
  define w :: byte where "w = of_nat (16 * a + b)"
  have bs: "bs = w # bs'" using bs0 w_def by simp
  have la: "a < 16" and lb: "b < 16" using a b by (auto dest: hex_val_lt)
  then have u: "unat w = 16 * a + b"
    unfolding w_def by (subst unat_of_nat) simp
  have "hex_digit a = c" "hex_digit b = d"
    using "3.prems" a b by (auto intro: hex_digit_val)
  moreover have "bh2u bs' = cs" using "3.IH"(1) [of bs'] "3.prems"(1) r by simp
  ultimately show ?case using la lb by (simp add: bs u)
qed

lemma bfh_lower:
  "list_all lower_hex s \<Longrightarrow> even (length s) \<Longrightarrow> \<exists>bs. bfh s = Inr bs \<and> 2 * length bs = length s"
proof (induction s rule: induct_list012)
  case 1
  then show ?case by simp
next
  case (2 c)
  then show ?case by simp
next
  case (3 c d cs)
  from "3.prems" obtain a b where a: "hex_val c = Some a" and b: "hex_val d = Some b"
    using lower_hex_val by fastforce
  moreover from "3.prems" have "list_all lower_hex cs" "even (length cs)" by simp_all
  ultimately obtain bs where "bfh cs = Inr bs" "2 * length bs = length cs"
    using "3.IH"(1) by blast
  with a b show ?case by (simp add: bfh_pair del: bfh.simps)
qed

lemma bfh_append: "bfh a = Inr x \<Longrightarrow> bfh (a @ b) = bindE (bfh b) (\<lambda>y. Inr (x @ y))"
proof (induction a arbitrary: x rule: bfh.induct)
  case 1
  then show ?case by (cases "bfh b") auto
next
  case (2 c)
  then show ?case by (cases b; cases "bfh b") (auto split: if_splits)
next
  case (3 c d cs)
  show ?case
  proof (cases "py_space c")
    case True
    then show ?thesis using 3 by simp
  next
    case False
    then show ?thesis using 3
      by (cases "bfh b") (auto simp: bindE_def split: option.splits sum.splits)
  qed
qed

lemma length_hexw [simp]: "length (hexw w n) = w"
  by (induction w arbitrary: n) simp_all

lemma hexw_zero: "hexw w 0 = replicate w CHR ''0''"
  by (induction w) (simp_all add: hex_digit_def replicate_append_same)

lemma lower_hexw: "list_all lower_hex (hexw w n)"
  by (induction w arbitrary: n) (simp_all add: lower_hex_digit)

lemma length_hex_nat: "0 < w \<Longrightarrow> n < 16 ^ w \<Longrightarrow> length (hex_nat n) \<le> w"
proof (induction w arbitrary: n)
  case 0
  then show ?case by simp
next
  case (Suc w)
  show ?case
  proof (cases "n < 16")
    case True
    then show ?thesis by (simp add: hex_nat.simps)
  next
    case False
    then have "0 < w" using Suc.prems by (cases w) auto
    moreover have "n div 16 < 16 ^ w" using Suc.prems by (simp add: less_mult_imp_div_less)
    ultimately have "length (hex_nat (n div 16)) \<le> w" by (rule Suc.IH)
    with False show ?thesis by (subst hex_nat.simps) simp
  qed
qed

lemma zfill_hex_nat: "0 < w \<Longrightarrow> n < 16 ^ w \<Longrightarrow> zfill w (hex_nat n) = hexw w n"
proof (induction w arbitrary: n)
  case 0
  then show ?case by simp
next
  case (Suc w)
  show ?case
  proof (cases "n < 16")
    case True
    then show ?thesis by (simp add: hex_nat.simps zfill_def hexw_zero)
  next
    case False
    then have w: "0 < w" using Suc.prems by (cases w) auto
    have d: "n div 16 < 16 ^ w" using Suc.prems by (simp add: less_mult_imp_div_less)
    have l: "length (hex_nat (n div 16)) \<le> w" using w d by (rule length_hex_nat)
    have "zfill w (hex_nat (n div 16)) = hexw w (n div 16)" using w d by (rule Suc.IH)
    with False l show ?thesis
      by (subst hex_nat.simps) (simp add: zfill_def Suc_diff_le)
  qed
qed

lemma hexw_split: "hexw (a + b) m = hexw a (m div 16 ^ b) @ hexw b m"
proof (induction b arbitrary: m)
  case 0
  show ?case by simp
next
  case (Suc b)
  have "m div 16 div 16 ^ b = m div 16 ^ Suc b"
    by (simp add: div_mult2_eq)
  with Suc[of "m div 16"] show ?case by simp
qed

lemma hexw_shift: "hexw (w + 2 * k) (m * 256 ^ k) = hexw w m @ replicate (2 * k) CHR ''0''"
proof (induction k)
  case 0
  show ?case by simp
next
  case (Suc k)
  have e: "m * 256 ^ Suc k = (m * 256 ^ k) * 16 * 16" by simp
  have "hexw (w + 2 * Suc k) (m * 256 ^ Suc k) = hexw (w + 2 * k) (m * 256 ^ k) @ ''00''"
    unfolding e by (simp add: hex_digit_def)
  then show ?case by (simp add: Suc replicate_append_same)
qed

lemma int16_acc_snoc:
  "int16_acc acc (xs @ [c]) =
     bindE (int16_acc acc xs)
       (\<lambda>v. case hex_val c of None \<Rightarrow> Inl ValueError | Some d \<Rightarrow> Inr (16 * v + d))"
  by (induction xs arbitrary: acc) (simp_all split: option.splits)

lemma int16_acc_hexw: "int16_acc acc (hexw w m) = Inr (acc * 16 ^ w + m mod 16 ^ w)"
proof (induction w arbitrary: m)
  case 0
  show ?case by simp
next
  case (Suc w)
  have "m mod 16 ^ Suc w = 16 * (m div 16 mod 16 ^ w) + m mod 16"
    by (simp add: mod_mult2_eq)
  then show ?case
    by (simp add: int16_acc_snoc Suc hex_val_digit algebra_simps)
qed

lemma int16_hexw: "0 < w \<Longrightarrow> m < 16 ^ w \<Longrightarrow> int16 (hexw w m) = Inr (int m)"
proof -
  assume w: "0 < w" and m: "m < 16 ^ w"
  have "hexw w m \<noteq> []" using w by (metis length_hexw length_0_conv less_numeral_extra(3))
  then show ?thesis using m by (simp add: int16_def int16_acc_hexw)
qed

lemma py_slice_consts:
  "py_slice c 0 2 = take 2 c" "py_slice c 0 6 = take 6 c" "py_from c 2 = drop 2 c"
  using py_slice_nat[of c 0 2] py_slice_nat[of c 0 6] py_from_nat[of c 2] by simp_all

lemma strip00_eq:
  "strip00 c = (if take 2 c = ''00'' \<and> 6 < length c then strip00 (drop 2 c) else c)"
  by (subst strip00.simps) (simp add: py_slice_consts)

lemma strip00_zeros:
  "6 \<le> length d \<Longrightarrow> strip00 (replicate (2 * j) CHR ''0'' @ d) = strip00 d"
proof (induction j)
  case 0
  show ?case by simp
next
  case (Suc j)
  then show ?case by (subst strip00_eq) simp
qed

lemma hex_digit_zero: "n < 16 \<Longrightarrow> hex_digit n = CHR ''0'' \<longleftrightarrow> n = 0"
proof
  assume n: "n < 16" and z: "hex_digit n = CHR ''0''"
  have "hex_val (hex_digit n) = Some n" using n by (rule hex_val_digit)
  moreover have "hex_val CHR ''0'' = Some 0" by (simp add: hex_val_def)
  ultimately show "n = 0" using z by simp
next
  assume "n = 0" then show "hex_digit n = CHR ''0''" by (simp add: hex_digit_def)
qed

lemma hexw2_nonzero: "0 < x \<Longrightarrow> x < 256 \<Longrightarrow> hexw 2 x \<noteq> ''00''"
proof -
  assume x: "0 < x" "x < 256"
  have e: "hexw 2 x = [hex_digit (x div 16 mod 16), hex_digit (x mod 16)]"
    by (simp add: numeral_2_eq_2)
  have "x div 16 mod 16 \<noteq> 0 \<or> x mod 16 \<noteq> 0"
  proof (rule ccontr)
    assume "\<not> (x div 16 mod 16 \<noteq> 0 \<or> x mod 16 \<noteq> 0)"
    then have a: "x div 16 mod 16 = 0" and b: "x mod 16 = 0" by simp_all
    have "x div 16 < 16" using x by simp
    with a have "x div 16 = 0" by simp
    with b have "x = 0" using div_mult_mod_eq [of x 16] by simp
    with x show False by simp
  qed
  then show ?thesis unfolding e by (auto simp: hex_digit_zero)
qed

lemma target_to_bits_alt:
  "strip00 (drop 2 (fmt064x t)) = c \<Longrightarrow> int16 (take 6 c) = Inr b \<Longrightarrow>
   target_to_bits t =
     (if b \<ge> 0x800000 then Inr (push_bit 24 (int (length c) div 2 + 1) OR drop_bit 8 b)
      else Inr (push_bit 24 (int (length c) div 2) OR b))"
  by (simp add: target_to_bits_def py_slice_consts Let_def)

lemma target_to_bits_compact:
  assumes lo: "0x8000 \<le> base" and hi: "base \<le> 0x7fffff" and k: "k \<le> 27"
  shows "target_to_bits (int (base * 256 ^ k)) = Inr (push_bit 24 (int (3 + k)) OR int base)"
proof -
  let ?t = "base * 256 ^ k"
  let ?Z = "replicate (2 * k) CHR ''0''"
  let ?D = "hexw 6 base @ ?Z"
  have p: "(256::nat) ^ k = 16 ^ (2 * k)" by (simp add: power_mult)
  have b6: "base < 16 ^ 6" using hi by simp
  have t_lt: "?t < 16 ^ (6 + 2 * k)"
    unfolding p power_add using b6 by simp
  have "(16::nat) ^ (6 + 2 * k) \<le> 16 ^ 64"
    using k by (intro power_increasing) simp_all
  with t_lt have t64: "?t < 16 ^ 64" by linarith
  have z: "zfill 64 (hex_nat ?t) = hexw 64 ?t"
    by (rule zfill_hex_nat) (simp, rule t64)
  have f: "fmt064x (int ?t) = hexw 64 ?t"
    by (simp only: fmt064x_def of_nat_less_0_iff if_False nat_int z)
  have s: "64 = 2 + 2 * (28 - k) + (6 + 2 * k)" using k by simp
  have "hexw 64 ?t = hexw (2 + 2 * (28 - k)) (?t div 16 ^ (6 + 2 * k)) @ hexw (6 + 2 * k) ?t"
    by (subst s) (rule hexw_split)
  also have "?t div 16 ^ (6 + 2 * k) = 0" using t_lt by simp
  also have "hexw (6 + 2 * k) ?t = ?D" by (rule hexw_shift)
  finally have h64: "hexw 64 ?t = ''00'' @ replicate (2 * (28 - k)) CHR ''0'' @ ?D"
    by (simp add: hexw_zero replicate_add[symmetric] del: replicate_add)
  have c0: "strip00 (drop 2 (fmt064x (int ?t))) = strip00 ?D"
    unfolding f h64 by (simp add: strip00_zeros)
  have len: "int (length ?D) div 2 = int (3 + k)" by simp
  show ?thesis
  proof (cases "base < 0x10000 \<and> 0 < k")
    case False
    have "strip00 ?D = ?D"
    proof (cases "base < 0x10000")
      case True
      with False have "k = 0" by simp
      then show ?thesis by (subst strip00_eq) simp
    next
      case False
      have "hexw 6 base = hexw (2 + 4) base" by simp
      also have "\<dots> = hexw 2 (base div 16 ^ 4) @ hexw 4 base" by (rule hexw_split)
      finally have "take 2 ?D = hexw 2 (base div 16 ^ 4)" by simp
      moreover have "hexw 2 (base div 16 ^ 4) \<noteq> ''00''"
        using False hi by (intro hexw2_nonzero) simp_all
      ultimately show ?thesis by (subst strip00_eq) simp
    qed
    with c0 have c1: "strip00 (drop 2 (fmt064x (int ?t))) = ?D" by simp
    have i: "int16 (take 6 ?D) = Inr (int base)"
      using b6 by (simp add: int16_hexw)
    have "\<not> 8388608 \<le> int base" using hi by simp
    then show ?thesis
      unfolding target_to_bits_alt[OF c1 i] by (simp only: len if_False)
  next
    case True
    let ?E = "hexw 4 base @ ?Z"
    have "hexw 6 base = hexw (2 + 4) base" by simp
    also have "\<dots> = hexw 2 (base div 16 ^ 4) @ hexw 4 base" by (rule hexw_split)
    also have "base div 16 ^ 4 = 0" using True by simp
    finally have h6: "hexw 6 base = ''00'' @ hexw 4 base" by (simp add: hexw_zero numeral_2_eq_2)
    have "strip00 ?D = strip00 ?E"
      by (subst strip00_eq) (simp add: h6 True)
    moreover have "strip00 ?E = ?E"
    proof -
      have "hexw 4 base = hexw (2 + 2) base" by simp
      also have "\<dots> = hexw 2 (base div 16 ^ 2) @ hexw 2 base" by (rule hexw_split)
      finally have "take 2 ?E = hexw 2 (base div 16 ^ 2)" by simp
      moreover have "hexw 2 (base div 16 ^ 2) \<noteq> ''00''"
      proof (rule hexw2_nonzero)
        show "0 < base div 16 ^ 2" using lo by simp
        show "base div 16 ^ 2 < 256" using True by (simp add: less_mult_imp_div_less)
      qed
      ultimately show ?thesis by (subst strip00_eq) simp
    qed
    ultimately have c1: "strip00 (drop 2 (fmt064x (int ?t))) = ?E" using c0 by simp
    obtain k' where k': "k = Suc k'" using True by (cases k) auto
    have "take 6 ?E = hexw 4 base @ ''00''" by (simp add: k')
    also have "\<dots> = hexw (4 + 2 * 1) (base * 256 ^ 1)"
      by (subst hexw_shift) (simp add: numeral_2_eq_2)
    finally have t6: "take 6 ?E = hexw 6 (base * 256)" by simp
    have i: "int16 (take 6 ?E) = Inr (int (base * 256))"
      unfolding t6 using True by (intro int16_hexw) simp_all
    have len': "int (length ?E) div 2 + 1 = int (3 + k)" by simp
    have db: "drop_bit 8 (int (base * 256)) = int base"
      by (simp add: drop_bit_eq_div)
    have ge: "8388608 \<le> int (base * 256)" using lo by simp
    show ?thesis
      unfolding target_to_bits_alt[OF c1 i]
      using ge by (simp only: len' db if_True)
  qed
qed

lemma and_255: "(x::int) AND 0xff = x mod 256"
proof -
  have m: "(0xff::int) = mask 8" by (simp add: mask_eq_exp_minus_1)
  have "x AND mask 8 = x mod 2 ^ 8"
    by (simp only: take_bit_eq_mask[symmetric] take_bit_eq_mod)
  then show ?thesis by (simp only: m) simp
qed

lemma and_ffffff: "(x::int) AND 0xffffff = x mod 2 ^ 24"
proof -
  have m: "(0xffffff::int) = mask 24" by (simp add: mask_eq_exp_minus_1)
  have "x AND mask 24 = x mod 2 ^ 24"
    by (simp only: take_bit_eq_mask[symmetric] take_bit_eq_mod)
  then show ?thesis by (simp only: m)
qed

lemma bits_to_target_arith:
  "bits_to_target b =
     (let n = b div 2 ^ 24 mod 256; base = b mod 2 ^ 24 in
      if \<not> (3 \<le> n \<and> n \<le> 0x1e) then Inl BitsFirstPart
      else if \<not> (0x8000 \<le> base \<and> base \<le> 0x7fffff) then Inl BitsSecondPart
      else Inr (base * 256 ^ nat (n - 3)))"
proof -
  have p: "push_bit (nat (8 * (n - 3))) x = x * 256 ^ nat (n - 3)" if "3 \<le> n" for n x :: int
  proof -
    have "nat (8 * (n - 3)) = 8 * nat (n - 3)" using that by (subst nat_mult_distrib) simp_all
    then show ?thesis by (simp only: push_bit_eq_mult power_mult) simp
  qed
  show ?thesis
    unfolding bits_to_target_def Let_def and_255 and_ffffff drop_bit_eq_div
    by (auto simp only: p split: if_splits)
qed

lemma compact_join:
  assumes "0 \<le> b" "b < 2 ^ 32"
  shows "push_bit 24 (b div 2 ^ 24 mod 256) OR (b mod 2 ^ 24) = (b::int)"
proof -
  have "b div 2 ^ 24 < 256" using assms by simp
  moreover have "0 \<le> b div 2 ^ 24" using assms by simp
  ultimately have m: "b div 2 ^ 24 mod 256 = drop_bit 24 b" by (simp add: drop_bit_eq_div)
  have "push_bit 24 (drop_bit 24 b) OR take_bit 24 b = concat_bit 24 b (drop_bit 24 b)"
    by (simp add: concat_bit_def or.commute)
  also have "\<dots> = take_bit 24 b + push_bit 24 (drop_bit 24 b)" by (rule concat_bit_eq)
  also have "\<dots> = b" by (simp add: take_bit_eq_mod push_bit_eq_mult drop_bit_eq_div)
  finally show ?thesis by (simp only: m take_bit_eq_mod)
qed

lemma roundtrip:
  assumes b: "0 \<le> b" "b < 2 ^ 32" and t: "bits_to_target b = Inr t"
  shows "target_to_bits t = Inr b"
proof -
  define n where "n = b div 2 ^ 24 mod 256"
  define base where "base = b mod 2 ^ 24"
  from t have n: "3 \<le> n" "n \<le> 0x1e" and ba: "0x8000 \<le> base" "base \<le> 0x7fffff"
    and tv: "t = base * 256 ^ nat (n - 3)"
    by (auto simp: bits_to_target_arith Let_def n_def base_def split: if_splits)
  have "t = int (nat base * 256 ^ nat (n - 3))" using tv ba by simp
  moreover have "target_to_bits (int (nat base * 256 ^ nat (n - 3))) =
      Inr (push_bit 24 (int (3 + nat (n - 3))) OR int (nat base))"
    using ba n by (intro target_to_bits_compact) simp_all
  moreover have "int (3 + nat (n - 3)) = n" "int (nat base) = base" using n ba by simp_all
  ultimately have "target_to_bits t = Inr (push_bit 24 n OR base)" by simp
  then show ?thesis using compact_join[OF b] by (simp add: n_def base_def)
qed

lemma max_target_bits: "target_to_bits MAX_TARGET = Inr 0x1e0fffff"
proof -
  have "MAX_TARGET = int (0xfffff * 256 ^ 27)" by (simp add: MAX_TARGET_def)
  moreover have "target_to_bits (int (0xfffff * 256 ^ 27)) = Inr (push_bit 24 (int (3 + 27)) OR int 0xfffff)"
    by (rule target_to_bits_compact) simp_all
  ultimately show ?thesis by simp
qed

lemma max_target_accept: "bits_to_target 0x1e0fffff = Inr MAX_TARGET"
  by (simp add: bits_to_target_arith MAX_TARGET_def)
section \<open>Lemmas on the header codec\<close>

lemma py_slice_header:
  "py_slice s 0 4 = take 4 s" "py_slice s 4 36 = take 32 (drop 4 s)"
  "py_slice s 36 68 = take 32 (drop 36 s)" "py_slice s 68 72 = take 4 (drop 68 s)"
  "py_slice s 72 76 = take 4 (drop 72 s)" "py_slice s 76 80 = take 4 (drop 76 s)"
  using py_slice_nat[of s 0 4] py_slice_nat[of s 4 36] py_slice_nat[of s 36 68]
    py_slice_nat[of s 68 72] py_slice_nat[of s 72 76] py_slice_nat[of s 76 80]
  by simp_all

lemma int_to_hex_4:
  assumes "0 \<le> v" "v < 2 ^ 32"
  obtains V where "int_to_hex v 4 = Inr (bh2u (rev V))" "length V = 4" "hex_to_int (rev V) = Inr v"
proof -
  have n: "nat v < 16 ^ 8" using assms by simp
  have z: "zfill 8 (hex_nat (nat v)) = hexw 8 (nat v)" by (rule zfill_hex_nat) (simp, rule n)
  obtain V where V: "bfh (hexw 8 (nat v)) = Inr V" "2 * length V = length (hexw 8 (nat v))"
    using bfh_lower[OF lower_hexw, of 8 "nat v"] by auto
  have b: "bh2u V = hexw 8 (nat v)" using lower_hexw V(1) by (rule bh2u_bfh)
  have "int_to_hex v 4 = Inr (bh2u (rev V))"
    using assms by (simp add: int_to_hex_def z rev_hex_def V(1))
  moreover have "length V = 4" using V(2) by simp
  moreover have "hex_to_int (rev V) = Inr v"
    using assms n by (simp add: hex_to_int_def b int16_hexw)
  ultimately show ?thesis by (rule that)
qed

lemma rev_hex_32:
  assumes "list_all lower_hex p" "length p = 64"
  obtains P where "rev_hex p = Inr (bh2u (rev P))" "length P = 32" "hash_encode (rev P) = p"
proof -
  obtain P where P: "bfh p = Inr P" "2 * length P = length p"
    using bfh_lower[OF assms(1)] assms(2) by auto
  have "bh2u P = p" using assms(1) P(1) by (rule bh2u_bfh)
  then have "hash_encode (rev P) = p" by (simp add: hash_encode_def)
  moreover have "rev_hex p = Inr (bh2u (rev P))" by (simp add: rev_hex_def P(1))
  moreover have "length P = 32" using P(2) assms(2) by simp
  ultimately show ?thesis using that by blast
qed

lemma roundtrip_header:
  assumes v: "0 \<le> version h" "version h < 2 ^ 32"
      and t: "0 \<le> timestamp h" "timestamp h < 2 ^ 32"
      and b: "0 \<le> bits h" "bits h < 2 ^ 32"
      and n: "0 \<le> nonce h" "nonce h < 2 ^ 32"
      and p: "prev_block_hash h = Some p" "length p = 64" "list_all lower_hex p"
      and m: "length (merkle_root h) = 64" "list_all lower_hex (merkle_root h)"
  obtains bs where "bindE (serialize_header h) bfh = Inr bs" "length bs = 80"
      "deserialize_header bs hgt = Inr (h\<lparr>block_height := hgt\<rparr>)"
proof -
  obtain V where V: "int_to_hex (version h) 4 = Inr (bh2u (rev V))" "length V = 4"
      "hex_to_int (rev V) = Inr (version h)" using v by (rule int_to_hex_4)
  obtain T where T: "int_to_hex (timestamp h) 4 = Inr (bh2u (rev T))" "length T = 4"
      "hex_to_int (rev T) = Inr (timestamp h)" using t by (rule int_to_hex_4)
  obtain B where B: "int_to_hex (bits h) 4 = Inr (bh2u (rev B))" "length B = 4"
      "hex_to_int (rev B) = Inr (bits h)" using b by (rule int_to_hex_4)
  obtain N where N: "int_to_hex (nonce h) 4 = Inr (bh2u (rev N))" "length N = 4"
      "hex_to_int (rev N) = Inr (nonce h)" using n by (rule int_to_hex_4)
  obtain P where P: "rev_hex p = Inr (bh2u (rev P))" "length P = 32" "hash_encode (rev P) = p"
    using p(3,2) by (rule rev_hex_32)
  obtain M where M: "rev_hex (merkle_root h) = Inr (bh2u (rev M))" "length M = 32"
      "hash_encode (rev M) = merkle_root h"
    using m(2,1) by (rule rev_hex_32)
  let ?bs = "rev V @ rev P @ rev M @ rev T @ rev B @ rev N"
  have s: "serialize_header h = Inr (bh2u ?bs)"
    by (simp add: serialize_header_def V(1) T(1) B(1) N(1) P(1) M(1) p(1))
  have 1: "bindE (serialize_header h) bfh = Inr ?bs" by (simp only: s bindE_simps bfh_bh2u)
  have 2: "length ?bs = 80" using V(2) T(2) B(2) N(2) P(2) M(2) by simp
  have sl: "take 4 ?bs = rev V" "take 32 (drop 4 ?bs) = rev P" "take 32 (drop 36 ?bs) = rev M"
    "take 4 (drop 68 ?bs) = rev T" "take 4 (drop 72 ?bs) = rev B" "take 4 (drop 76 ?bs) = rev N"
    using V(2) T(2) B(2) N(2) P(2) M(2) by simp_all
  have ne: "?bs \<noteq> []" using V(2) by auto
  have "deserialize_header ?bs hgt =
      Inr \<lparr>version = version h, prev_block_hash = Some p, merkle_root = merkle_root h,
           timestamp = timestamp h, bits = bits h, nonce = nonce h, block_height = hgt\<rparr>"
    unfolding deserialize_header_def py_slice_header sl
    using ne 2 by (simp add: V(3) T(3) B(3) N(3) P(3) M(3))
  also have "\<dots> = Inr (h\<lparr>block_height := hgt\<rparr>)" using p(1) by (cases h) simp
  finally show ?thesis using 1 2 that by blast
qed

lemma deserialize_length: "length bs \<noteq> 80 \<Longrightarrow> \<exists>e. deserialize_header bs hgt = Inl e"
  by (simp add: deserialize_header_def)

lemma deserialize_lower:
  assumes "deserialize_header bs hgt = Inr h"
  shows "\<exists>p. prev_block_hash h = Some p \<and> list_all lower_hex p"
proof -
  from assms have "prev_block_hash h = Some (hash_encode (py_slice bs 4 36))"
    by (auto simp: deserialize_header_def bindE_def split: if_splits sum.splits)
  then show ?thesis by (simp add: hash_encode_def lower_bh2u)
qed


section \<open>Facts about the chain functions\<close>

lemma bh2u_replicate0: "bh2u (replicate n 0) = replicate (2 * n) CHR ''0''"
  by (induction n) (simp_all add: bh2u_def hex_digit_def)

lemma int16_acc_zeros: "int16_acc a (replicate n CHR ''0'') = Inr (16 ^ n * a)"
  by (induction n arbitrary: a) (simp_all add: hex_val_def)

lemma hex_to_int_zeros: "0 < n \<Longrightarrow> hex_to_int (replicate n 0) = Inr 0"
  by (simp add: hex_to_int_def bh2u_replicate0 int16_def int16_acc_zeros)

lemma py_slice_replicate:
  "0 \<le> a \<Longrightarrow> a \<le> b \<Longrightarrow> b \<le> int n \<Longrightarrow> py_slice (replicate n x) a b = replicate (nat (b - a)) x"
  by (simp add: py_slice_def Let_def min_def) arith

lemma deserialize_zeros: "deserialize_header (replicate 80 0) h = Inr (zero_header h)"
  by (simp add: deserialize_header_def py_slice_replicate hex_to_int_zeros hash_encode_def
      bh2u_replicate0 zero_header_def zeros64_def)

lemma walk_step:
  "c > 100 \<Longrightarrow> length bs \<le> 60 \<Longrightarrow> block_at E w self data index c = Inr (Some blk) \<Longrightarrow>
   walk E w self data index algo c bs =
     walk E w self data index algo (c - 1) (if get_algo blk = algo then bs @ [Some blk] else bs)"
  by (subst walk.simps) (simp add: get_algo_opt_def)

lemma walk_stop:
  "c \<le> 100 \<or> length bs > 60 \<Longrightarrow> walk E w self data index algo c bs = Inr (c, bs)"
  by (subst walk.simps) auto

lemma get_algo_tag:
  "get_algo h = (let tag = version h AND push_bit 11 15 in
     if tag = push_bit 11 1 then 0 else if tag = push_bit 11 2 then 4
     else if tag = push_bit 11 10 then 2 else if tag = push_bit 11 3 then 1
     else if tag = push_bit 11 4 then 3 else if tag = push_bit 11 11 then 5 else 0)"
  by (simp add: get_algo_def switcher_def Let_def)

lemma zeros64_text:
  "''0000000000000000000000000000000000000000000000000000000000000000'' = zeros64"
  by (simp add: zeros64_def eval_nat_numeral)

lemma read_header_beyond:
  assumes "0 < n" "parent_id (objs w self) \<noteq> Some (checkpoint (objs w self))"
      and "0 \<le> h" "checkpoint (objs w self) \<le> h" "height w self < h"
  shows "read_header n w self h = Inr None"
  using assms by (cases n) (simp_all add: Let_def)

lemma bfh_zeros: "bfh (replicate (2 * n) CHR ''0'') = Inr (replicate n 0)"
  using bfh_bh2u [of "replicate n 0"] by (simp add: bh2u_replicate0)

lemma rev_hex_zeros: "rev_hex (replicate (2 * n) CHR ''0'') = Inr (replicate (2 * n) CHR ''0'')"
  by (simp add: rev_hex_def bfh_zeros bh2u_replicate0)

lemma int_to_hex_zero: "int_to_hex 0 4 = Inr (replicate 8 CHR ''0'')"
proof -
  have "zfill 8 (hex_nat 0) = replicate 8 CHR ''0''"
    using zfill_hex_nat [of 8 0] by (simp add: hexw_zero)
  then show ?thesis using rev_hex_zeros [of 4] by (simp add: int_to_hex_def)
qed

lemma serialize_zero_header: "serialize_header (zero_header h) = Inr (replicate 160 CHR ''0'')"
proof -
  have "replicate 8 CHR ''0'' @ replicate 64 CHR ''0'' @ replicate 64 CHR ''0''
        @ replicate 8 CHR ''0'' @ replicate 8 CHR ''0'' @ replicate 8 CHR ''0''
        = replicate 160 CHR ''0''"
    by (simp add: replicate_add [symmetric])
  then show ?thesis
    using rev_hex_zeros [of 32]
    by (simp add: serialize_header_def zero_header_def int_to_hex_zero zeros64_def)
qed

lemma hash_zero_header:
  "hash_header E (Some (zero_header h)) = Inr (hash_encode (getPoWHash E (replicate 80 0)))"
  using bfh_zeros [of 80]
  by (simp add: hash_header_def serialize_zero_header) (simp add: zero_header_def)

lemma bfh_error: "bfh s = Inl e \<Longrightarrow> e = ValueError"
proof (induction s rule: bfh.induct)
  case 1
  then show ?case by simp
next
  case (2 c)
  then show ?case by (simp split: if_splits)
next
  case (3 c d cs)
  show ?case
  proof (cases "py_space c")
    case True
    then show ?thesis using 3 by simp
  next
    case False
    then show ?thesis using 3
      by (cases "bfh cs") (auto split: option.splits)
  qed
qed

lemma rev_hex_error: "rev_hex s = Inl e \<Longrightarrow> e = ValueError"
  by (cases "bfh s") (auto simp: rev_hex_def dest: bfh_error)

lemma int_to_hex_error: "int_to_hex i n = Inl e \<Longrightarrow> e = ValueError"
  by (auto simp: int_to_hex_def dest: rev_hex_error split: if_splits)

lemma bindE_Inl: "bindE m f = Inl e \<Longrightarrow> m = Inl e \<or> (\<exists>x. m = Inr x \<and> f x = Inl e)"
  by (cases m) auto

lemma serialize_header_error: "serialize_header h = Inl e \<Longrightarrow> e = ValueError \<or> e = TypeError"
  unfolding serialize_header_def
  by (auto dest!: bindE_Inl dest: int_to_hex_error rev_hex_error split: option.splits)

lemma pow_hash_header_error:
  "pow_hash_header E h = Inl e \<Longrightarrow> e = ValueError \<or> e = TypeError"
  unfolding pow_hash_header_def
  by (auto dest!: bindE_Inl dest: serialize_header_error bfh_error split: if_splits)

lemma int16_error: "int16 s = Inl e \<Longrightarrow> e = ValueError"
proof -
  have "int16_acc a s = Inl e \<Longrightarrow> e = ValueError" for a
    by (induction s arbitrary: a) (auto split: option.splits)
  then show "int16 s = Inl e \<Longrightarrow> e = ValueError"
    by (auto simp: int16_def dest!: bindE_Inl split: if_splits)
qed

lemma verify_header_mainnet:
  assumes "version h AND push_bit 11 15 = push_bit 11 1
           \<or> version h AND push_bit 11 15 = push_bit 11 4"
      and "\<not> TESTNET E" and "prev_block_hash h = Some prev_hash"
      and "target_to_bits target = Inr (bits h)"
  shows "verify_header E h prev_hash target =
           bindE (pow_hash_header E h) (\<lambda>p. bindE (int16 p)
             (\<lambda>pow. if pow > target then Inl InsufficientPoW else Inr ()))"
  using assms by (cases "pow_hash_header E h") (auto simp: verify_header_def Let_def)

lemma lower_zeros64: "list_all lower_hex zeros64"
  by (simp add: zeros64_def lower_hex_def list_all_iff)

lemma length_zeros64: "length zeros64 = 64"
  by (simp add: zeros64_def)

lemma pow_header_hash:
  assumes "0 \<le> b" "b < 2 ^ 32"
  shows "pow_hash_header mainnet (pow_header b) = Inr (hash_encode max_hash)"
proof -
  obtain bs where "bindE (serialize_header (pow_header b)) bfh = Inr bs"
    by (rule roundtrip_header [of "pow_header b" zeros64])
       (use assms lower_zeros64 length_zeros64 in \<open>simp_all add: pow_header_def\<close>)
  then show ?thesis
    by (simp add: pow_hash_header_def mainnet_def)
qed

lemma int16_acc_append:
  "int16_acc a (s @ t) = bindE (int16_acc a s) (\<lambda>a'. int16_acc a' t)"
  by (induction s arbitrary: a) (auto split: option.splits)

lemma max_hash_text: "hash_encode max_hash = ''00000fffff'' @ replicate 54 CHR ''0''"
proof -
  have a: "rev max_hash = [0, 0, 0x0f, 0xff, 0xff] @ replicate 27 0"
    by (simp add: max_hash_def)
  have b: "bh2u [0, 0, 0x0f, 0xff, 0xff] = ''00000fffff''"
    by (simp add: hex_digit_def)
  show ?thesis
    unfolding hash_encode_def a bh2u_simps(3) b bh2u_replicate0 by simp
qed

lemma max_hash_value: "int16 (hash_encode max_hash) = Inr MAX_TARGET"
proof -
  have "int16_acc 0 ''00000fffff'' = Inr 0xfffff" by (simp add: hex_val_def)
  then have "int16_acc 0 (hash_encode max_hash) = Inr (16 ^ 54 * 0xfffff)"
    by (simp only: max_hash_text int16_acc_append int16_acc_zeros bindE_simps)
  moreover have "hash_encode max_hash \<noteq> []" by (simp add: max_hash_text)
  ultimately show ?thesis by (simp add: int16_def MAX_TARGET_def)
qed

lemma walk_prefix:
  "walk E w self data index algo c bs = Inr (c', bs') \<Longrightarrow> take (length bs) bs' = bs"
proof (induction E w self data index algo c bs rule: walk.induct)
  case (1 E w self data index algo c bs)
  show ?case
  proof (cases "c > 100 \<and> int (length bs) \<le> 60")
    case False
    then have "walk E w self data index algo c bs = Inr (c, bs)"
      by (intro walk_stop) auto
    then show ?thesis using "1.prems" by simp
  next
    case go: True
    obtain block where b: "block_at E w self data index c = Inr block"
      using "1.prems"(1) go by (subst (asm) walk.simps) (auto split: sum.splits)
    obtain a where a: "get_algo_opt block = Inr a"
      using "1.prems"(1) go b by (subst (asm) walk.simps) (auto split: sum.splits)
    let ?bs = "if a = algo then bs @ [block] else bs"
    have w: "walk E w self data index algo (c - 1) ?bs = Inr (c', bs')"
      using "1.prems"(1) go b a by (subst (asm) walk.simps) simp
    have "take (length ?bs) bs' = ?bs" using "1.IH" [OF go b a w] .
    then have "take (length bs) (take (length ?bs) bs') = take (length bs) ?bs" by simp
    then show ?thesis by (simp add: min_def split: if_splits)
  qed
qed

lemma swap_noop:
  assumes "parent_id (objs w self) = None
           \<or> (\<exists>pr. parent w self = Inr pr
                 \<and> chain_size (objs w self) \<le> height w pr - checkpoint (objs w self) + 1)"
  shows "swap_with_parent w self = (Inr (), w)"
  using assms by (auto simp: swap_with_parent_def Let_def split: option.splits)









lemma write_append:
  assumes f: "files w (path w self) = Some f"
      and s: "chain_size (objs w self) = int (length f) div 80"
      and d: "length data = 80"
  shows "write_data w self data (chain_size (objs w self) * 80) True =
           Inr (update_size (w\<lparr>files := (files w)(path w self \<mapsto>
                   take (nat (chain_size (objs w self) * 80)) f @ data)\<rparr>) self)"
proof -
  have n: "nat (chain_size (objs w self) * 80) \<le> length f" unfolding s by simp
  have m: "length f < nat (chain_size (objs w self) * 80) + 80"
    unfolding s by (simp add: nat_add_distrib nat_mult_distrib nat_div_distrib) 
  have "0 \<le> chain_size (objs w self) * 80" unfolding s by simp
  moreover have "data \<noteq> []" using d by auto
  moreover have "drop (nat (chain_size (objs w self) * 80) + length data) f = []"
    using m d by simp
  ultimately show ?thesis using f n
    by (simp add: write_data_def assert_headers_file_available_def f_write_def Let_def)
qed

lemma fresh_world_facts:
  "files fresh_world (path fresh_world 0) = Some []"
  "chain_size (objs fresh_world 0) = 0" "checkpoint (objs fresh_world 0) = 0"
  "parent_id (objs fresh_world 0) = None" "height fresh_world 0 = - 1"
  "path fresh_world 0 = MainPath" "files fresh_world MainPath = Some []"
  by (simp_all add: fresh_world_def main_chain_def path_def path_of_def height_def)















section \<open>Compact targets\<close>

text \<open>
  Claim C4. For every 32-bit bits value \<open>b\<close> that \<open>bits_to_target\<close> accepts (exponent
  \<open>(b >> 24) & 0xff\<close> in \<open>[0x03, 0x1e]\<close> and mantissa \<open>b & 0xffffff\<close> in
  \<open>[0x8000, 0x7fffff]\<close>), \<open>target_to_bits (bits_to_target b)\<close> is \<open>b\<close> again.
\<close>

theorem target_to_bits_bits_to_target:
  assumes "0 \<le> b" and "b < 2 ^ 32" and "bits_to_target b = Inr t"
  shows "target_to_bits t = Inr b"
  using assms by (rule roundtrip)

theorem target_to_bits_bits_to_target_witness:
  "bits_to_target 0x1d00ffff = Inr (0xffff * 256 ^ 26) \<and>
   target_to_bits (0xffff * 256 ^ 26) = Inr 0x1d00ffff"
proof -
  have a: "bits_to_target 0x1d00ffff = Inr (0xffff * 256 ^ 26)"
    by (simp add: bits_to_target_arith)
  have "(0::int) \<le> 0x1d00ffff" and "(0x1d00ffff::int) < 2 ^ 32" by simp_all
  then show ?thesis using a target_to_bits_bits_to_target [of "0x1d00ffff" "0xffff * 256 ^ 26"]
    by blast
qed

text \<open>
  Claim C6, as the code has it. With \<open>n = (bits >> 24) & 0xff\<close> and
  \<open>base = bits & 0xffffff\<close>, \<open>bits_to_target\<close> fails exactly when \<open>n\<close> is outside
  \<open>[0x03, 0x1e]\<close> or \<open>base\<close> is outside \<open>[0x8000, 0x7fffff]\<close>, and otherwise returns
  \<open>base << (8 * (n - 3))\<close>; every encoding with an exponent above \<open>0x1e\<close> is rejected.
  The encoding of \<open>MAX_TARGET\<close> is \<open>0x1e0fffff\<close>: its exponent is \<open>0x1e\<close> itself, and it
  is accepted and decodes to \<open>MAX_TARGET\<close>.
\<close>

theorem bits_to_target_accepts_iff:
  fixes b :: int
  defines "n \<equiv> drop_bit 24 b AND 0xff" and "base \<equiv> b AND 0xffffff"
  shows "((\<exists>e. bits_to_target b = Inl e) \<longleftrightarrow>
            n < 0x03 \<or> 0x1e < n \<or> base < 0x8000 \<or> 0x7fffff < base)
       \<and> ((\<forall>e. bits_to_target b \<noteq> Inl e) \<longrightarrow>
            bits_to_target b = Inr (push_bit (nat (8 * (n - 3))) base)
          \<and> bits_to_target b = Inr (base * 256 ^ nat (n - 3)))
       \<and> (0x1e < n \<longrightarrow> bits_to_target b = Inl BitsFirstPart)
       \<and> target_to_bits MAX_TARGET = Inr 0x1e0fffff
       \<and> bits_to_target 0x1e0fffff = Inr MAX_TARGET"
proof -
  have nb: "n = b div 2 ^ 24 mod 256" "base = b mod 2 ^ 24"
    by (simp_all add: n_def base_def and_255 and_ffffff drop_bit_eq_div)
  have 1: "(\<exists>e. bits_to_target b = Inl e) \<longleftrightarrow>
      n < 0x03 \<or> 0x1e < n \<or> base < 0x8000 \<or> 0x7fffff < base"
    unfolding nb by (auto simp: bits_to_target_arith Let_def)
  have 2: "bits_to_target b = Inr (base * 256 ^ nat (n - 3))" if "\<forall>e. bits_to_target b \<noteq> Inl e"
    using that unfolding nb by (auto simp: bits_to_target_arith Let_def split: if_splits)
  have 3: "bits_to_target b = Inr (push_bit (nat (8 * (n - 3))) base)"
    if "\<forall>e. bits_to_target b \<noteq> Inl e"
    using that unfolding n_def base_def bits_to_target_def Let_def by (auto split: if_splits)
  have 4: "bits_to_target b = Inl BitsFirstPart" if "0x1e < n"
    using that unfolding nb by (simp add: bits_to_target_arith Let_def)
  show ?thesis using 1 2 3 4 max_target_bits max_target_accept by blast
qed

theorem bits_to_target_accepts_iff_witness:
  "bits_to_target 0x1f00ffff = Inl BitsFirstPart \<and>
   bits_to_target 0x1d00ffff = Inr (push_bit (nat (8 * (0x1d - 3))) 0xffff)"
proof -
  have a: "drop_bit 24 (0x1f00ffff :: int) AND 0xff = 0x1f"
    by (simp add: and_255 drop_bit_eq_div)
  have b: "drop_bit 24 (0x1d00ffff :: int) AND 0xff = 0x1d" "(0x1d00ffff :: int) AND 0xffffff = 0xffff"
    by (simp_all add: and_255 and_ffffff drop_bit_eq_div)
  have c: "\<forall>e. bits_to_target 0x1d00ffff \<noteq> Inl e"
    by (simp add: bits_to_target_arith)
  show ?thesis
    using bits_to_target_accepts_iff [of "0x1f00ffff"] bits_to_target_accepts_iff [of "0x1d00ffff"] c
    unfolding a b by simp
qed

text \<open>
  Claim C6, as stated, counts the encoding of \<open>MAX_TARGET\<close> among the rejected ones; the
  code accepts it.
\<close>

theorem max_target_encoding_counterexample:
  "\<not> (\<exists>e. bindE (target_to_bits MAX_TARGET) bits_to_target = Inl e)"
  by (simp add: max_target_bits max_target_accept)

section \<open>Header round trip\<close>

text \<open>
  Claim C5, as the code has it. For every header \<open>h\<close> whose version, timestamp, bits and
  nonce are in the 32-bit unsigned range and whose prev_block_hash and merkle_root are 64
  lowercase hexadecimal digits, and for any height \<open>hgt\<close>, deserializing the 80 serialized bytes
  gives \<open>h\<close> back with \<open>block_height = hgt\<close>; \<open>deserialize_header\<close> fails on every
  input whose length is not 80 bytes.
\<close>

theorem deserialize_serialize_header:
  assumes "0 \<le> version h" "version h < 2 ^ 32"
      and "0 \<le> timestamp h" "timestamp h < 2 ^ 32"
      and "0 \<le> bits h" "bits h < 2 ^ 32"
      and "0 \<le> nonce h" "nonce h < 2 ^ 32"
      and "prev_block_hash h = Some p" "length p = 64" "list_all lower_hex p"
      and "length (merkle_root h) = 64" "list_all lower_hex (merkle_root h)"
  shows "(\<exists>bs. bindE (serialize_header h) bfh = Inr bs \<and> length bs = 80)
       \<and> bindE (bindE (serialize_header h) bfh) (\<lambda>bs. deserialize_header bs hgt)
           = Inr (h\<lparr>block_height := hgt\<rparr>)
       \<and> (\<forall>bs. length bs \<noteq> 80 \<longrightarrow> (\<exists>e. deserialize_header bs hgt = Inl e))"
proof -
  obtain bs where "bindE (serialize_header h) bfh = Inr bs" "length bs = 80"
      "deserialize_header bs hgt = Inr (h\<lparr>block_height := hgt\<rparr>)"
    using assms by (rule roundtrip_header)
  then show ?thesis using deserialize_length by auto
qed

theorem deserialize_serialize_header_witness:
  "bindE (bindE (serialize_header
       \<lparr>version = 2048, prev_block_hash = Some (replicate 64 CHR ''a''),
        merkle_root = replicate 64 CHR ''7'', timestamp = 1500000000, bits = 0x1d00ffff,
        nonce = 42, block_height = 7\<rparr>) bfh) (\<lambda>bs. deserialize_header bs 7)
     = Inr \<lparr>version = 2048, prev_block_hash = Some (replicate 64 CHR ''a''),
        merkle_root = replicate 64 CHR ''7'', timestamp = 1500000000, bits = 0x1d00ffff,
        nonce = 42, block_height = 7\<rparr>
   \<and> (\<exists>e. deserialize_header (replicate 79 0) 7 = Inl e)"
proof -
  let ?h = "\<lparr>version = 2048, prev_block_hash = Some (replicate 64 CHR ''a''),
        merkle_root = replicate 64 CHR ''7'', timestamp = 1500000000, bits = 0x1d00ffff,
        nonce = 42, block_height = 7\<rparr>"
  have l: "lower_hex CHR ''a''" "lower_hex CHR ''7''" by (simp_all add: lower_hex_def)
  have "list_all lower_hex (replicate 64 CHR ''a'')" "list_all lower_hex (replicate 64 CHR ''7'')"
    using l by (simp_all add: list_all_iff)
  then show ?thesis
    using deserialize_serialize_header [of ?h "replicate 64 CHR ''a''" 7] by simp
qed

text \<open>
  Claim C5, as stated, takes any 64 hexadecimal digits. The digits \<open>A\<close> to \<open>F\<close> are
  hexadecimal digits too, and no byte string deserializes to a header that has them: the
  hashes of a deserialized header are always written in lowercase.
\<close>

theorem deserialize_serialize_header_counterexample:
  "list_all (\<lambda>c. hex_val c \<noteq> None) (replicate 64 CHR ''A'')
   \<and> bindE (bindE (serialize_header
       \<lparr>version = 1, prev_block_hash = Some (replicate 64 CHR ''A''),
        merkle_root = replicate 64 CHR ''0'', timestamp = 0, bits = 0,
        nonce = 0, block_height = 0\<rparr>) bfh) (\<lambda>bs. deserialize_header bs 0)
     \<noteq> Inr \<lparr>version = 1, prev_block_hash = Some (replicate 64 CHR ''A''),
        merkle_root = replicate 64 CHR ''0'', timestamp = 0, bits = 0,
        nonce = 0, block_height = 0\<rparr>"
proof -
  let ?h = "\<lparr>version = 1, prev_block_hash = Some (replicate 64 CHR ''A''),
        merkle_root = replicate 64 CHR ''0'', timestamp = 0, bits = 0,
        nonce = 0, block_height = 0\<rparr>"
  have a: "hex_val CHR ''A'' \<noteq> None" "\<not> lower_hex CHR ''A''"
    by (simp_all add: hex_val_def lower_hex_def)
  have 1: "list_all (\<lambda>c. hex_val c \<noteq> None) (replicate 64 CHR ''A'')"
    using a(1) by (simp add: list_all_iff)
  have 2: "deserialize_header bs 0 \<noteq> Inr ?h" for bs
  proof
    assume "deserialize_header bs 0 = Inr ?h"
    then obtain p where "prev_block_hash ?h = Some p" "list_all lower_hex p"
      using deserialize_lower by blast
    then have "list_all lower_hex (replicate 64 CHR ''A'')" by auto
    then show False using a(2) by (simp add: list_all_iff)
  qed
  have "bindE m (\<lambda>bs. deserialize_header bs 0) \<noteq> Inr ?h" for m
    using 2 by (cases m) simp_all
  then show ?thesis using 1 by blast
qed


section \<open>Algorithm identifiers\<close>

text \<open>
  Claim C10. \<open>get_algo\<close> gives 0 for every version whose tag bits
  \<open>version & (15 << 11)\<close> are not a key of \<open>switcher\<close>, and 0 for the scrypt tag
  \<open>1 << 11\<close>. So when the header at the height and an ancestor each have algorithm 0
  (scrypt or an unknown tag), the walk of \<open>get_target\<close> counts the ancestor as the same
  algorithm: it goes on with the ancestor appended to \<open>samealgoblocks\<close>, and the ancestor
  is in the list that the walk returns, right after the blocks collected before it.
\<close>

theorem get_algo_unknown_tag:
  "(version h AND push_bit 11 15 \<notin> fst ` set switcher \<longrightarrow> get_algo h = 0)
   \<and> (version s AND push_bit 11 15 = push_bit 11 1 \<longrightarrow> get_algo s = 0)
   \<and> (get_algo cBlock = 0 \<and> get_algo blk = 0 \<and> c > 100 \<and> length bs \<le> 60
        \<and> block_at E w self data index c = Inr (Some blk)
       \<longrightarrow> walk E w self data index (get_algo cBlock) c bs
            = walk E w self data index (get_algo cBlock) (c - 1) (bs @ [Some blk])
         \<and> (\<forall>c' bs'. walk E w self data index (get_algo cBlock) c bs = Inr (c', bs')
              \<longrightarrow> take (length bs + 1) bs' = bs @ [Some blk] \<and> Some blk \<in> set bs'))"
proof (intro conjI impI)
  assume "version h AND push_bit 11 15 \<notin> fst ` set switcher"
  then have "map_of switcher (version h AND push_bit 11 15) = None"
    by (simp add: map_of_eq_None_iff)
  then show "get_algo h = 0" by (simp add: get_algo_def)
next
  assume "version s AND push_bit 11 15 = push_bit 11 1"
  then show "get_algo s = 0" by (simp add: get_algo_tag)
next
  assume a: "get_algo cBlock = 0 \<and> get_algo blk = 0 \<and> c > 100 \<and> length bs \<le> 60
        \<and> block_at E w self data index c = Inr (Some blk)"
  then show st: "walk E w self data index (get_algo cBlock) c bs
            = walk E w self data index (get_algo cBlock) (c - 1) (bs @ [Some blk])"
    using walk_step [of c bs E w self data index blk "get_algo cBlock"] by simp
  show "\<forall>c' bs'. walk E w self data index (get_algo cBlock) c bs = Inr (c', bs')
              \<longrightarrow> take (length bs + 1) bs' = bs @ [Some blk] \<and> Some blk \<in> set bs'"
  proof (intro allI impI)
    fix c' bs'
    assume "walk E w self data index (get_algo cBlock) c bs = Inr (c', bs')"
    then have "walk E w self data index (get_algo cBlock) (c - 1) (bs @ [Some blk])
                 = Inr (c', bs')" using st by simp
    then have t: "take (length (bs @ [Some blk])) bs' = bs @ [Some blk]" by (rule walk_prefix)
    then have "Some blk \<in> set (take (length (bs @ [Some blk])) bs')" by simp
    then have "Some blk \<in> set bs'" by (rule in_set_takeD)
    then show "take (length bs + 1) bs' = bs @ [Some blk] \<and> Some blk \<in> set bs'"
      using t by simp
  qed
qed

theorem get_algo_unknown_tag_witness:
  "get_algo (zero_header 5) = 0 \<and> get_algo ((zero_header 5)\<lparr>version := 2048\<rparr>) = 0
   \<and> walk testnet fresh_world 0 (replicate 8240 0) 0 0 102 []
       = walk testnet fresh_world 0 (replicate 8240 0) 0 0 101 [Some (zero_header 102)]
   \<and> walk testnet fresh_world 0 (replicate 8240 0) 0 0 102 []
       = Inr (100, [Some (zero_header 102), Some (zero_header 101)])
   \<and> take 1 [Some (zero_header 102), Some (zero_header 101)] = [Some (zero_header 102)]"
proof -
  let ?s = "(zero_header 5)\<lparr>version := 2048\<rparr>"
  have 1: "version (zero_header 5) AND push_bit 11 15 \<notin> fst ` set switcher"
    by (simp add: zero_header_def switcher_def)
  have 2: "version ?s AND push_bit 11 15 = push_bit 11 1" by (simp add: zero_header_def)
  have 3: "block_at testnet fresh_world 0 (replicate 8240 0) 0 102 = Inr (Some (zero_header 102))"
    by (simp add: block_at_def py_slice_replicate deserialize_zeros)
  have 7: "block_at testnet fresh_world 0 (replicate 8240 0) 0 101 = Inr (Some (zero_header 101))"
    by (simp add: block_at_def py_slice_replicate deserialize_zeros)
  have 4: "get_algo (zero_header 102) = 0" "get_algo (zero_header 101) = 0"
    by (simp_all add: get_algo_tag zero_header_def)
  have 5: "get_algo ?s = 0" by (simp add: get_algo_tag zero_header_def)
  have 6: "walk testnet fresh_world 0 (replicate 8240 0) 0 0 101 [Some (zero_header 102)]
           = Inr (100, [Some (zero_header 102), Some (zero_header 101)])"
    using walk_step [of 101 "[Some (zero_header 102)]" testnet fresh_world 0 "replicate 8240 0" 0
        "zero_header 101" 0] 7 4 by (simp add: walk_stop)
  show ?thesis
    using get_algo_unknown_tag [of "zero_header 5" ?s ?s "zero_header 102" 102 "[]"
        testnet fresh_world 0 "replicate 8240 0" 0] 1 2 3 4 5 6
    by simp
qed

section \<open>Hash of a height without a header\<close>

text \<open>
  Claim C9, as the code has it. For every height \<open>h \<noteq> 0\<close> at or above
  \<open>len(checkpoints) * 2016\<close> where \<open>read_header\<close> yields no header, \<open>get_hash h\<close> does
  not fail: it returns the 64-character all-zero string. So \<open>check_header\<close> of a header at
  \<open>h\<close> compares the header's hash with zeros, and \<open>can_connect\<close> of a header at \<open>h + 1\<close>
  compares its \<open>prev_block_hash\<close> with zeros; neither observes a missing-header error.
  At height 0, \<open>get_hash\<close> returns the genesis hash of the network, whether or not a
  header is stored.
\<close>

theorem get_hash_absent_header:
  "(int (length (CHECKPOINTS E)) * 2016 \<le> h
      \<and> read_header (recursion_limit E) w self h = Inr None \<and> h \<noteq> 0 \<longrightarrow>
        get_hash E w self h = Inr zeros64
      \<and> (block_height header = h \<and> hash_header E (Some header) = Inr s
            \<longrightarrow> check_header E w self header = Inr (s = zeros64))
      \<and> (block_height nxt = h + 1 \<and> (check_height \<longrightarrow> height w self = h)
            \<longrightarrow> can_connect E w self (Some nxt) check_height
                  = Inr (prev_block_hash nxt = Some zeros64)))
   \<and> get_hash E w self 0 = Inr (GENESIS E)"
proof -
  have g: "get_hash E w self h = Inr zeros64"
    if "int (length (CHECKPOINTS E)) * 2016 \<le> h"
      "read_header (recursion_limit E) w self h = Inr None" "h \<noteq> 0"
  proof -
    have "0 \<le> int (length (CHECKPOINTS E)) * 2016" by simp
    then have "h \<noteq> - 1" using that(1) by linarith
    then show ?thesis using that by (simp add: get_hash_def hash_header_def)
  qed
  have c: "can_connect E w self (Some nxt) check_height
             = Inr (prev_block_hash nxt = Some zeros64)"
    if "get_hash E w self h = Inr zeros64" "0 \<le> h"
      "block_height nxt = h + 1" "check_height \<longrightarrow> height w self = h"
    using that by (auto simp: can_connect_def Let_def)
  have p: "0 \<le> h" if "int (length (CHECKPOINTS E)) * 2016 \<le> h"
    using that by (smt (verit) of_nat_0_le_iff mult_nonneg_nonneg)
  have "get_hash E w self 0 = Inr (GENESIS E)" by (simp add: get_hash_def)
  then show ?thesis using g c p by (auto simp: check_header_def)
qed

theorem get_hash_absent_header_witness:
  "int (length (CHECKPOINTS testnet)) * 2016 \<le> 5
   \<and> read_header (recursion_limit testnet) fresh_world 0 5 = Inr None
   \<and> get_hash testnet fresh_world 0 5 = Inr zeros64
   \<and> check_header testnet fresh_world 0 (zero_header 5) = Inr True
   \<and> can_connect testnet fresh_world 0 (Some (zero_header 6)) False = Inr True"
proof -
  have 1: "int (length (CHECKPOINTS testnet)) * 2016 \<le> 5" by (simp add: testnet_def)
  have 2: "read_header (recursion_limit testnet) fresh_world 0 5 = Inr None"
    by (rule read_header_beyond)
       (simp_all add: testnet_def fresh_world_def main_chain_def height_def)
  have 3: "hash_header testnet (Some (zero_header 5)) = Inr zeros64"
    by (simp add: hash_zero_header hash_encode_def bh2u_replicate0 zeros64_def testnet_def)
  have 4: "block_height (zero_header 5) = 5" "block_height (zero_header 6) = 5 + 1"
    "prev_block_hash (zero_header 6) = Some zeros64"
    by (simp_all add: zero_header_def)
  show ?thesis
    using get_hash_absent_header [of testnet 5 fresh_world 0 "zero_header 5" zeros64
        "zero_header 6" False] 1 2 3 4 by simp
qed

text \<open>
  The height 0 of a network without checkpoints: the empty main chain has no header there,
  and \<open>get_hash\<close> answers with the genesis hash, not with zeros.
\<close>

theorem get_hash_genesis_counterexample:
  "int (length (CHECKPOINTS testnet)) * 2016 \<le> 0
   \<and> read_header (recursion_limit testnet) fresh_world 0 0 = Inr None
   \<and> get_hash testnet fresh_world 0 0 = Inr (GENESIS testnet)
   \<and> get_hash testnet fresh_world 0 0 \<noteq> Inr zeros64"
proof -
  have 2: "read_header (recursion_limit testnet) fresh_world 0 0 = Inr None"
    by (rule read_header_beyond)
       (simp_all add: testnet_def fresh_world_def main_chain_def height_def)
  have 3: "GENESIS testnet \<noteq> zeros64" by (simp add: testnet_def zeros64_def eval_nat_numeral)
  show ?thesis using 2 3 by (simp add: get_hash_def) (simp add: testnet_def)
qed

section \<open>Proof of work\<close>

text \<open>
  Claim C1, as the code has it. For every header whose algorithm tag
  \<open>version & (15 << 11)\<close> is scrypt (\<open>1 << 11\<close>) or blake (\<open>4 << 11\<close>), on the main
  network, when the linkage and bits checks pass, \<open>verify_header\<close> fails with the
  proof-of-work error exactly when \<open>pow_hash_header\<close>, read as a big-endian unsigned
  integer, is strictly greater than the target, and accepts the header exactly when that
  integer is less than or equal to the target.
\<close>

theorem verify_header_pow:
  assumes "version h AND push_bit 11 15 = push_bit 11 1
           \<or> version h AND push_bit 11 15 = push_bit 11 4"
      and "\<not> TESTNET E" and "prev_block_hash h = Some prev_hash"
      and "target_to_bits target = Inr (bits h)"
  shows "(verify_header E h prev_hash target = Inl InsufficientPoW \<longleftrightarrow>
            (\<exists>p pow. pow_hash_header E h = Inr p \<and> int16 p = Inr pow \<and> target < pow))
       \<and> (verify_header E h prev_hash target = Inr () \<longleftrightarrow>
            (\<exists>p pow. pow_hash_header E h = Inr p \<and> int16 p = Inr pow \<and> pow \<le> target))"
proof -
  note v = verify_header_mainnet [OF assms]
  show ?thesis
  proof (cases "pow_hash_header E h")
    case (Inl e)
    then show ?thesis using v pow_hash_header_error [of E h e] by auto
  next
    case p: (Inr p)
    show ?thesis
    proof (cases "int16 p")
      case (Inl e)
      then show ?thesis using v p int16_error [of p e] by auto
    next
      case (Inr pow)
      then show ?thesis using v p by auto
    qed
  qed
qed

theorem verify_header_pow_witness:
  "pow_hash_header mainnet (pow_header 0x1d0fffff) = Inr (hash_encode max_hash)
   \<and> int16 (hash_encode max_hash) = Inr MAX_TARGET
   \<and> 0xfffff * 256 ^ 26 < MAX_TARGET
   \<and> verify_header mainnet (pow_header 0x1d0fffff) zeros64 (0xfffff * 256 ^ 26)
       = Inl InsufficientPoW"
proof -
  let ?h = "pow_header 0x1d0fffff"
  have 1: "version ?h AND push_bit 11 15 = push_bit 11 1
           \<or> version ?h AND push_bit 11 15 = push_bit 11 4"
    by (simp add: pow_header_def)
  have 2: "\<not> TESTNET mainnet" by (simp add: mainnet_def)
  have 3: "prev_block_hash ?h = Some zeros64" by (simp add: pow_header_def)
  have "target_to_bits (int (0xfffff * 256 ^ 26)) = Inr (push_bit 24 (int (3 + 26)) OR int 0xfffff)"
    by (rule target_to_bits_compact) simp_all
  then have 4: "target_to_bits (0xfffff * 256 ^ 26) = Inr (bits ?h)"
    by (simp add: pow_header_def)
  have 5: "pow_hash_header mainnet ?h = Inr (hash_encode max_hash)"
    by (rule pow_header_hash) simp_all
  have 6: "(0xfffff * 256 ^ 26 :: int) < MAX_TARGET" by (simp add: MAX_TARGET_def)
  show ?thesis
    using verify_header_pow [of ?h mainnet zeros64 "0xfffff * 256 ^ 26", OF 1 2 3 4]
      5 6 max_hash_value by auto
qed

text \<open>
  A scrypt header whose proof-of-work hash is equal to the target \<open>MAX_TARGET\<close>: the
  linkage and bits checks pass and the header is accepted.
\<close>

theorem verify_header_equal_counterexample:
  "pow_hash_header mainnet (pow_header 0x1e0fffff) = Inr (hash_encode max_hash)
   \<and> int16 (hash_encode max_hash) = Inr MAX_TARGET
   \<and> prev_block_hash (pow_header 0x1e0fffff) = Some zeros64
   \<and> target_to_bits MAX_TARGET = Inr (bits (pow_header 0x1e0fffff))
   \<and> verify_header mainnet (pow_header 0x1e0fffff) zeros64 MAX_TARGET = Inr ()"
proof -
  let ?h = "pow_header 0x1e0fffff"
  have 1: "version ?h AND push_bit 11 15 = push_bit 11 1
           \<or> version ?h AND push_bit 11 15 = push_bit 11 4"
    by (simp add: pow_header_def)
  have 2: "\<not> TESTNET mainnet" by (simp add: mainnet_def)
  have 3: "prev_block_hash ?h = Some zeros64" by (simp add: pow_header_def)
  have 4: "target_to_bits MAX_TARGET = Inr (bits ?h)"
    by (simp add: max_target_bits pow_header_def)
  have 5: "pow_hash_header mainnet ?h = Inr (hash_encode max_hash)"
    by (rule pow_header_hash) simp_all
  show ?thesis
    using verify_header_mainnet [OF 1 2 3 4] 3 4 5 max_hash_value by simp
qed

section \<open>Swapping with the parent\<close>

text \<open>
  Claim C7. \<open>swap_with_parent\<close> returns and changes nothing, neither a file, nor a field
  of a chain, nor the registry, when the chain is the main chain (\<open>parent_id\<close> is none) or
  when \<open>parent_branch_size = parent.height - self.checkpoint + 1\<close> is greater than or equal
  to the size of the chain.
\<close>

theorem swap_with_parent_unchanged:
  assumes "parent_id (objs w self) = None
           \<or> (\<exists>pr. parent w self = Inr pr
                 \<and> chain_size (objs w self) \<le> height w pr - checkpoint (objs w self) + 1)"
  shows "swap_with_parent w self = (Inr (), w)"
  using assms by (rule swap_noop)

theorem swap_with_parent_unchanged_witness:
  "parent (forked_world 7) 1 = Inr 0
   \<and> height (forked_world 7) 0 - checkpoint (objs (forked_world 7) 1) + 1 = 2
   \<and> chain_size (objs (forked_world 7) 1) = 2
   \<and> swap_with_parent (forked_world 7) 1 = (Inr (), forked_world 7)
   \<and> parent_id (objs (forked_world 7) 0) = None
   \<and> swap_with_parent (forked_world 7) 0 = (Inr (), forked_world 7)"
proof -
  have 1: "parent (forked_world 7) 1 = Inr 0"
    by (simp add: parent_def forked_world_def fork_chain_def)
  have 2: "height (forked_world 7) 0 - checkpoint (objs (forked_world 7) 1) + 1 = 2"
    "chain_size (objs (forked_world 7) 1) = 2"
    by (simp_all add: height_def forked_world_def fork_chain_def main_chain_def)
  have 3: "parent_id (objs (forked_world 7) 0) = None"
    by (simp add: forked_world_def main_chain_def)
  show ?thesis
    using swap_with_parent_unchanged [of "forked_world 7" 1]
      swap_with_parent_unchanged [of "forked_world 7" 0] 1 2 3 by simp
qed

section \<open>Connecting a chunk\<close>




section \<open>Saving a header\<close>

text \<open>
  Claim C8, as the code has it. Take a header \<open>h\<close> whose version, timestamp, bits and nonce
  are in the 32-bit unsigned range, whose two hashes are 64 lowercase hexadecimal digits and
  whose six fields are not all zero, and a chain with \<open>checkpoint \<ge> 0\<close> and
  \<open>parent_id \<noteq> checkpoint\<close> whose headers file exists and has \<open>size\<close> whole headers
  (\<open>size = len(file) // 80\<close>). If \<open>h.block_height - checkpoint = size\<close> and no parent swap is
  triggered (the chain is the main chain, or its parent is another chain with
  \<open>parent.height - checkpoint + 1 \<ge> size + 1\<close>),
  then \<open>save_header h\<close> returns, after it \<open>read_header h.block_height\<close> returns \<open>h\<close>, and
  \<open>height\<close> is one greater than before.
\<close>

theorem save_header_read_header:
  assumes "0 \<le> version h" "version h < 2 ^ 32"
      and "0 \<le> timestamp h" "timestamp h < 2 ^ 32"
      and "0 \<le> bits h" "bits h < 2 ^ 32"
      and "0 \<le> nonce h" "nonce h < 2 ^ 32"
      and "prev_block_hash h = Some p" "length p = 64" "list_all lower_hex p"
      and "length (merkle_root h) = 64" "list_all lower_hex (merkle_root h)"
      and nz: "h\<lparr>block_height := 0\<rparr> \<noteq> zero_header 0"
      and f: "files w (path w self) = Some f"
      and s: "chain_size (objs w self) = int (length f) div 80"
      and cp: "0 \<le> checkpoint (objs w self)"
              "parent_id (objs w self) \<noteq> Some (checkpoint (objs w self))"
      and pre: "block_height h - checkpoint (objs w self) = chain_size (objs w self)"
      and noswap: "parent_id (objs w self) = None
                   \<or> (\<exists>pr. parent w self = Inr pr \<and> pr \<noteq> self
                         \<and> chain_size (objs w self) + 1
                             \<le> height w pr - checkpoint (objs w self) + 1)"
  shows "\<exists>w'. save_header w self h = (Inr (), w')
            \<and> read_header (Suc d) w' self (block_height h) = Inr (Some h)
            \<and> height w' self = height w self + 1"
proof -
  obtain bs where bs: "bindE (serialize_header h) bfh = Inr bs" "length bs = 80"
      "\<And>hgt. deserialize_header bs hgt = Inr (h\<lparr>block_height := hgt\<rparr>)"
  proof -
    obtain bs where a: "bindE (serialize_header h) bfh = Inr bs" "length bs = 80"
      "deserialize_header bs 0 = Inr (h\<lparr>block_height := 0\<rparr>)"
      using assms(1-13) by (rule roundtrip_header)
    have "deserialize_header bs hgt = Inr (h\<lparr>block_height := hgt\<rparr>)" for hgt
    proof -
      obtain bs' where b: "bindE (serialize_header h) bfh = Inr bs'"
        "deserialize_header bs' hgt = Inr (h\<lparr>block_height := hgt\<rparr>)"
        using assms(1-13) by (rule roundtrip_header)
      then show ?thesis using a(1) by simp
    qed
    then show ?thesis using a that by blast
  qed
  have nzb: "bs \<noteq> replicate 80 0"
  proof
    assume "bs = replicate 80 0"
    then have "h\<lparr>block_height := 0\<rparr> = zero_header 0"
      using bs(3) [of 0] by (simp add: deserialize_zeros)
    then show False using nz by simp
  qed
  let ?b = "objs w self"
  let ?n = "nat (chain_size ?b * 80)"
  define w1 where "w1 = update_size (w\<lparr>files := (files w)(path w self \<mapsto> take ?n f @ bs)\<rparr>) self"
  have wr: "write_data w self bs (chain_size ?b * 80) True = Inr w1"
    unfolding w1_def using f s bs(2) by (rule write_append)
  have n: "?n \<le> length f" unfolding s by simp
  have sz0: "0 \<le> chain_size ?b" unfolding s by simp
  have p1: "path w1 self = path w self"
    by (simp add: w1_def update_size_def path_def path_of_def split: option.splits)
  have f1: "files w1 (path w self) = Some (take ?n f @ bs)"
    by (simp add: w1_def update_size_def)
  have len: "int (length (take ?n f @ bs)) div 80 = chain_size ?b + 1"
    using n bs(2) sz0 by simp
  have o1: "objs w1 self = ?b\<lparr>chain_size := chain_size ?b + 1\<rparr>"
    using len by (simp add: w1_def update_size_def path_def path_of_def)
  have o2: "objs w1 r = objs w r" if "r \<noteq> self" for r
    using that by (simp add: w1_def update_size_def)
  have r1: "blockchains w1 = blockchains w" by (simp add: w1_def update_size_def)
  have h1: "height w1 self = height w self + 1" by (simp add: height_def o1)
  have "swap_with_parent w1 self = (Inr (), w1)"
  proof (rule swap_noop)
    show "parent_id (objs w1 self) = None
           \<or> (\<exists>pr. parent w1 self = Inr pr
                 \<and> chain_size (objs w1 self) \<le> height w1 pr - checkpoint (objs w1 self) + 1)"
      using noswap
    proof
      assume "parent_id ?b = None"
      then show ?thesis by (simp add: o1)
    next
      assume "\<exists>pr. parent w self = Inr pr \<and> pr \<noteq> self
                         \<and> chain_size ?b + 1 \<le> height w pr - checkpoint ?b + 1"
      then obtain pr where pr: "parent w self = Inr pr" "pr \<noteq> self"
        "chain_size ?b + 1 \<le> height w pr - checkpoint ?b + 1" by blast
      have "parent w1 self = parent w self" unfolding parent_def o1 r1 by simp
      then have "parent w1 self = Inr pr" using pr(1) by simp
      moreover have "height w1 pr = height w pr" using pr(2) by (simp add: height_def o2)
      ultimately show ?thesis using pr(3) by (simp add: o1)
    qed
  qed
  then have sv: "save_header w self h = (Inr (), w1)"
    using bs(1,2) pre wr by (simp add: save_header_def Let_def)
  have bh: "block_height h = checkpoint ?b + chain_size ?b" using pre by simp
  have rd: "f_read (take ?n f @ bs) ?n 80 = Inr bs"
    using n bs(2) by (simp add: f_read_def)
  have "read_header (Suc d) w1 self (block_height h) = Inr (Some h)"
    using cp sz0 nzb bs(2) bs(3) [of "block_height h"] rd
    by (simp add: o1 p1 f1 h1 height_def bh assert_headers_file_available_def Let_def)
  then show ?thesis using sv h1 by blast
qed

theorem save_header_read_header_witness:
  "\<exists>w'. save_header fresh_world 0 (pow_header 0x1e0fffff) = (Inr (), w')
      \<and> read_header (Suc 0) w' 0 (block_height (pow_header 0x1e0fffff))
          = Inr (Some (pow_header 0x1e0fffff))
      \<and> height w' 0 = height fresh_world 0 + 1"
proof -
  let ?h = "pow_header 0x1e0fffff"
  have 1: "0 \<le> version ?h" "version ?h < 2 ^ 32" "0 \<le> timestamp ?h" "timestamp ?h < 2 ^ 32"
    "0 \<le> bits ?h" "bits ?h < 2 ^ 32" "0 \<le> nonce ?h" "nonce ?h < 2 ^ 32"
    "prev_block_hash ?h = Some zeros64" "length zeros64 = 64" "list_all lower_hex zeros64"
    "length (merkle_root ?h) = 64" "list_all lower_hex (merkle_root ?h)"
    using lower_zeros64 length_zeros64 by (simp_all add: pow_header_def)
  have 2: "?h\<lparr>block_height := 0\<rparr> \<noteq> zero_header 0"
    by (simp add: pow_header_def zero_header_def)
  have 3: "chain_size (objs fresh_world 0) = int (length ([] :: bytes)) div 80"
    "0 \<le> checkpoint (objs fresh_world 0)"
    "parent_id (objs fresh_world 0) \<noteq> Some (checkpoint (objs fresh_world 0))"
    "block_height ?h - checkpoint (objs fresh_world 0) = chain_size (objs fresh_world 0)"
    by (simp_all add: fresh_world_facts pow_header_def)
  have 4: "parent_id (objs fresh_world 0) = None
           \<or> (\<exists>pr. parent fresh_world 0 = Inr pr \<and> pr \<noteq> 0
                 \<and> chain_size (objs fresh_world 0) + 1
                     \<le> height fresh_world pr - checkpoint (objs fresh_world 0) + 1)"
    by (simp add: fresh_world_facts)
  show ?thesis
    using save_header_read_header [OF 1 2 fresh_world_facts(1) 3 4, of 0] .
qed

text \<open>
  The header whose six fields are zero, saved at height 0 of the empty main chain: it
  satisfies the precondition, \<open>save_header\<close> returns and the height grows by one, but
  \<open>read_header 0\<close> finds 80 zero bytes and returns no header.
\<close>

theorem save_header_zero_counterexample:
  "block_height (zero_header 0) - checkpoint (objs fresh_world 0)
     = chain_size (objs fresh_world 0)
   \<and> (\<exists>w'. save_header fresh_world 0 (zero_header 0) = (Inr (), w')
          \<and> height w' 0 = height fresh_world 0 + 1
          \<and> read_header (recursion_limit testnet) w' 0 (block_height (zero_header 0))
              = Inr None)"
proof -
  define w1 where "w1 = update_size
     (fresh_world\<lparr>files := (files fresh_world)(path fresh_world 0 \<mapsto>
        take (nat (chain_size (objs fresh_world 0) * 80)) [] @ replicate 80 0)\<rparr>) 0"
  have b: "bindE (serialize_header (zero_header 0)) bfh = Inr (replicate 80 0)"
    using bfh_zeros [of 80] by (simp add: serialize_zero_header)
  have "write_data fresh_world 0 (replicate 80 0) (chain_size (objs fresh_world 0) * 80) True
          = Inr w1"
    unfolding w1_def by (rule write_append) (simp_all add: fresh_world_facts)
  then have wr: "write_data fresh_world 0 (replicate 80 0) 0 True = Inr w1"
    by (simp add: fresh_world_facts)
  have o: "objs w1 0 = main_chain 1" "files w1 MainPath = Some (replicate 80 0)"
    by (simp_all add: w1_def update_size_def fresh_world_def main_chain_def path_def path_of_def)
  have "swap_with_parent w1 0 = (Inr (), w1)"
    by (rule swap_noop) (simp add: o main_chain_def)
  then have sv: "save_header fresh_world 0 (zero_header 0) = (Inr (), w1)"
    using b wr by (simp add: save_header_def fresh_world_facts) (simp add: zero_header_def)
  have h: "height w1 0 = 0" by (simp add: height_def o main_chain_def)
  have r: "read_header (Suc 999) w1 0 0 = Inr None"
    by (subst read_header.simps) (simp add: o h main_chain_def path_def path_of_def assert_headers_file_available_def
        f_read_def Let_def)
  have rl: "recursion_limit testnet = Suc 999" by (simp add: testnet_def)
  have bh: "block_height (zero_header 0) = 0" by (simp add: zero_header_def)
  have "read_header (recursion_limit testnet) w1 0 (block_height (zero_header 0)) = Inr None"
    unfolding rl bh by (rule r)
  then show ?thesis using sv h by (simp add: fresh_world_facts zero_header_def)
qed

section \<open>Legacy and windowed targets\<close>




end
